theory Spec2Isabelle
  imports Main
begin

unbundle bit_operations_syntax

section \<open>JavaScript values and error objects\<close>

text \<open>
  The values that reach the fields of an error object in \<^verbatim>\<open>src/index.ts\<close>:
  \<^verbatim>\<open>undefined\<close>, a number, or a string.  Strict equality \<^verbatim>\<open>===\<close> on these
  primitives is HOL equality.
\<close>

datatype jsval = JUndefined | JNum int | JStr string

text \<open>Decimal rendering of an integer, as a template literal renders a number.\<close>

definition digit_char :: "nat \<Rightarrow> char" where
  "digit_char d = ''0123456789'' ! d"

fun show_nat :: "nat \<Rightarrow> string" where
  "show_nat n = (if n < 10 then [digit_char n] else show_nat (n div 10) @ [digit_char (n mod 10)])"

declare show_nat.simps [simp del]

definition show_int :: "int \<Rightarrow> string" where
  "show_int i = (if i < 0 then CHR ''-'' # show_nat (nat (- i)) else show_nat (nat i))"

text \<open>What \<^verbatim>\<open>${v}\<close> yields inside a template literal.\<close>

fun template_str :: "jsval \<Rightarrow> string" where
  "template_str JUndefined = ''undefined''"
| "template_str (JNum n) = show_int n"
| "template_str (JStr s) = s"

text \<open>
  A thrown error object (\<^verbatim>\<open>NodeJS.ErrnoException\<close>): the message and the four
  properties the program reads or writes.
\<close>

record js_error =
  err_message :: string
  err_code :: jsval
  err_errno :: jsval
  err_syscall :: jsval
  err_hostname :: jsval

text \<open>The error codes of Node's \<^verbatim>\<open>dns\<close> module that the program compares against.\<close>

definition NOTFOUND :: string where "NOTFOUND = ''ENOTFOUND''"
definition NODATA :: string where "NODATA = ''ENODATA''"
definition NONAME :: string where "NONAME = ''ENONAME''"

text \<open>
  \<^verbatim>\<open>makeNotFoundError(code, syscall, hostname)\<close>, lines 61-77.  A hostname is truthy
  when it is not the empty string.
\<close>

definition makeNotFoundError :: "jsval \<Rightarrow> jsval \<Rightarrow> string \<Rightarrow> js_error" where
  "makeNotFoundError cd sc host =
     \<lparr> err_message = template_str sc @ '' '' @ template_str cd
                        @ (if host \<noteq> [] then '' '' @ host else []),
       err_code = JStr NOTFOUND,
       err_errno = cd,
       err_syscall = sc,
       err_hostname = (if host \<noteq> [] then JStr host else JUndefined) \<rparr>"

text \<open>\<^verbatim>\<open>new Error(message)\<close>: an error object with a message only.\<close>

definition new_Error :: "string \<Rightarrow> js_error" where
  "new_Error msg =
     \<lparr> err_message = msg, err_code = JUndefined, err_errno = JUndefined,
       err_syscall = JUndefined, err_hostname = JUndefined \<rparr>"

section \<open>Records\<close>

text \<open>\<^verbatim>\<open>enum LookupType { IPv4 = 4, IPv6 = 6 }\<close>\<close>

datatype LookupType = IPv4 | IPv6

fun LookupType_num :: "LookupType \<Rightarrow> int" where
  "LookupType_num IPv4 = 4"
| "LookupType_num IPv6 = 6"

text \<open>
  \<^verbatim>\<open>dns.LookupAddress\<close> is \<^verbatim>\<open>{address, family}\<close>; a \<^verbatim>\<open>DnsRecord\<close> has a
  \<^verbatim>\<open>ttl\<close> (in seconds) besides.  \<^verbatim>\<open>dns.RecordWithTtl\<close> is what the external
  resolver \<^verbatim>\<open>dns.promises.resolve4/resolve6\<close> returns.
\<close>

record LookupAddress =
  address :: string
  family :: LookupType

record DnsRecord = LookupAddress +
  ttl :: int

record RecordWithTtl =
  raw_address :: string
  raw_ttl :: int

section \<open>Round-robin selection\<close>

text \<open>
  \<^verbatim>\<open>roundRobin(arr)\<close>, lines 343-363.  The cursor \<^verbatim>\<open>_rr\<close> is a property of the
  array object; here the function takes the elements and the cursor (\<open>None\<close> when the
  property is absent) and returns the selected element with the cursor it leaves.
\<close>

definition roundRobin :: "'a list \<Rightarrow> int option \<Rightarrow> 'a option \<times> int option" where
  "roundRobin arr c =
     (if length arr = 0 then (None, c)
      else case c of
        None \<Rightarrow> (Some (arr ! 0), Some 0)
      | Some i \<Rightarrow>
          if length arr = 1 then (Some (arr ! 0), Some i)
          else if i \<ge> int (length arr) - 1 \<or> i < 0 then (Some (arr ! 0), Some 0)
          else (Some (arr ! nat (i + 1)), Some (i + 1)))"

text \<open>An array object of the heap: its elements and its \<^verbatim>\<open>_rr\<close> property.\<close>

record RRArray =
  elems :: "DnsRecord list"
  rr :: "int option"

section \<open>The address cache\<close>

text \<open>
  \<^verbatim>\<open>AddressCacheEntry\<close>: \<open>records\<close> is a reference to the array object (the cache
  keeps the array it was given, it does not copy it), \<open>expiry\<close> a time in milliseconds.
\<close>

record AddressCacheEntry =
  records :: nat
  expiry :: int

type_synonym heap = "nat \<Rightarrow> RRArray"
type_synonym cache = "string \<rightharpoonup> AddressCacheEntry"

text \<open>
  \<^verbatim>\<open>AddressCache.get(key)\<close>, lines 26-38, at clock reading \<open>now\<close>
  (\<^verbatim>\<open>Date.now()\<close>).  Returns the array reference or \<open>None\<close> for \<^verbatim>\<open>null\<close>, and the
  cache it leaves.
\<close>

definition AddressCache_get :: "heap \<Rightarrow> cache \<Rightarrow> int \<Rightarrow> string \<Rightarrow> nat option \<times> cache" where
  "AddressCache_get h c now key =
     (case c key of
        None \<Rightarrow> (None, c)
      | Some entry \<Rightarrow>
          if length (elems (h (records entry))) = 0 \<or> expiry entry \<le> now
          then (None, c(key := None))
          else (Some (records entry), c))"

text \<open>
  \<^verbatim>\<open>AddressCache.set(key, records)\<close>, lines 40-51.  \<^verbatim>\<open>Math.min\<close> over the
  spread of a non-empty array is a fold of \<open>min\<close>.  One clock reading \<open>now\<close> stands for
  the calls of \<^verbatim>\<open>Date.now()\<close> made while the array is mapped.
\<close>

definition AddressCache_set :: "heap \<Rightarrow> cache \<Rightarrow> int \<Rightarrow> string \<Rightarrow> nat \<Rightarrow> cache" where
  "AddressCache_set h c now key r =
     (case map (\<lambda>record. now + ttl record * 1000) (elems (h r)) of
        [] \<Rightarrow> c
      | t # ts \<Rightarrow> c(key \<mapsto> \<lparr> records = r, expiry = fold min ts t \<rparr>))"

section \<open>Module state\<close>

text \<open>
  A \<^verbatim>\<open>pendingPromise\<close> object (lines 259-266): its settlement state, and the
  \<^verbatim>\<open>hostname\<close> and \<^verbatim>\<open>options.family\<close> its callbacks close over.  A fulfilled
  promise holds a reference to the array it was fulfilled with.
\<close>

datatype promise_state = Pending | Fulfilled nat | Rejected js_error

record promise =
  p_state :: promise_state
  p_hostname :: string
  p_family :: LookupType

text \<open>Which external primitive was invoked: \<^verbatim>\<open>dns.promises.resolve4\<close> or \<^verbatim>\<open>resolve6\<close>.\<close>

datatype resolver = resolve4 | resolve6

record CacheDnsDefaults =
  defaultFamily :: "int option"
  defaultHints :: "int option"

text \<open>
  The values \<^verbatim>\<open>options.family\<close> takes inside \<^verbatim>\<open>lookupPromise\<close>:
  \<^verbatim>\<open>undefined\<close>, a number, or the two-element array \<^verbatim>\<open>[v, v]\<close> that
  \<^verbatim>\<open>Set.prototype.entries()\<close> yields for a member \<open>v\<close> (line 418).
\<close>

datatype family_val = FamUndefined | FamNum int | FamEntry LookupType LookupType

text \<open>
  The module-level variables: the array objects allocated so far (with their cursors),
  \<^verbatim>\<open>addressCache\<close>, \<^verbatim>\<open>pendingLookups\<close>, the promise objects,
  \<^verbatim>\<open>cacheDnsDefaults\<close> and \<^verbatim>\<open>cachedSupportedFamilies\<close> (\<open>None\<close> for
  \<^verbatim>\<open>null\<close>).  \<open>next_array\<close> and \<open>next_promise\<close> are the references the next
  array and the next promise are allocated at.  \<open>resolver_calls\<close> logs every invocation
  of the external primitive, with its hostname argument.
\<close>

record state =
  arrays :: heap
  next_array :: nat
  addressCache :: cache
  pendingLookups :: "string \<rightharpoonup> nat"
  promises :: "nat \<Rightarrow> promise"
  next_promise :: nat
  resolver_calls :: "(resolver \<times> string) list"
  cacheDnsDefaults :: CacheDnsDefaults
  cachedSupportedFamilies :: "family_val option"

section \<open>Single-family resolution\<close>

text \<open>The cache key \<^verbatim>\<open>`${hostname}_${options.family}`\<close>, line 250.\<close>

definition cache_key :: "string \<Rightarrow> LookupType \<Rightarrow> string" where
  "cache_key host fam = host @ ''_'' @ template_str (JNum (LookupType_num fam))"

definition to_LookupAddress :: "DnsRecord \<Rightarrow> LookupAddress" where
  "to_LookupAddress record = \<lparr> address = address record, family = family record \<rparr>"

text \<open>
  Lines 286-302 of \<^verbatim>\<open>resolve\<close>: what is returned from the array \<open>r\<close>, and the
  cursor update \<^verbatim>\<open>roundRobin\<close> makes on that array object.
\<close>

definition resolve_finish :: "state \<Rightarrow> bool \<Rightarrow> nat \<Rightarrow> LookupAddress list \<times> state" where
  "resolve_finish s all r =
     (let arr = arrays s r in
      if all then (map to_LookupAddress (elems arr), s)
      else
        (let (sel, c) = roundRobin (elems arr) (rr arr);
             s' = s\<lparr> arrays := (arrays s)(r := arr\<lparr> rr := c \<rparr>) \<rparr>
         in case sel of
              None \<Rightarrow> ([], s')
            | Some record \<Rightarrow> ([to_LookupAddress record], s')))"

text \<open>
  \<^verbatim>\<open>resolve\<close> is an async function: a call runs synchronously up to its first
  \<^verbatim>\<open>await\<close>.  On a cache hit there is none and the call runs to its end; otherwise
  it suspends at line 277 on a promise.
\<close>

datatype resolve_status = Returned "LookupAddress list" | Awaiting nat

text \<open>
  Lines 250-275 (and 286-302 on a hit): the synchronous part of
  \<^verbatim>\<open>resolve(hostname, options)\<close> at clock reading \<open>now\<close>; \<open>fam\<close> is
  \<^verbatim>\<open>options.family\<close> and \<open>all\<close> is \<^verbatim>\<open>options.all\<close>.
\<close>

definition resolve_begin ::
  "state \<Rightarrow> int \<Rightarrow> string \<Rightarrow> LookupType \<Rightarrow> bool \<Rightarrow> resolve_status \<times> state" where
  "resolve_begin s now host fam all =
     (let key = cache_key host fam;
          (recs, c) = AddressCache_get (arrays s) (addressCache s) now key;
          s1 = s\<lparr> addressCache := c \<rparr>
      in case recs of
           Some r \<Rightarrow> (let (res, s2) = resolve_finish s1 all r in (Returned res, s2))
         | None \<Rightarrow>
            (case pendingLookups s1 key of
               Some p \<Rightarrow> (Awaiting p, s1)
             | None \<Rightarrow>
                (let resolveFunc = (if fam = IPv6 then resolve6 else resolve4);
                     p = next_promise s1
                 in (Awaiting p,
                     s1\<lparr> promises := (promises s1)
                            (p := \<lparr> p_state = Pending, p_hostname = host, p_family = fam \<rparr>),
                         next_promise := Suc p,
                         pendingLookups := (pendingLookups s1)(key \<mapsto> p),
                         resolver_calls := resolver_calls s1 @ [(resolveFunc, host)] \<rparr>))))"

text \<open>
  Lines 259-266, run when the external call of promise \<open>p\<close> settles with \<open>outcome\<close>
  (\<open>Inl\<close> a rejection, \<open>Inr\<close> the records): \<^verbatim>\<open>pendingPromise\<close> is rejected with
  the external error, rejected with a not-found error when there are no records, or
  fulfilled with a newly allocated array of the records tagged with the family.
\<close>

definition external_settled :: "state \<Rightarrow> nat \<Rightarrow> js_error + RecordWithTtl list \<Rightarrow> state" where
  "external_settled s p outcome =
     (let pr = promises s p in
      case outcome of
        Inl e \<Rightarrow> s\<lparr> promises := (promises s)(p := pr\<lparr> p_state := Rejected e \<rparr>) \<rparr>
      | Inr recs \<Rightarrow>
          if length recs = 0
          then s\<lparr> promises := (promises s)
                 (p := pr\<lparr> p_state := Rejected
                    (makeNotFoundError JUndefined (JStr ''getaddrinfo'') (p_hostname pr)) \<rparr>) \<rparr>
          else
            (let r = next_array s in
             s\<lparr> arrays := (arrays s)
                   (r := \<lparr> elems = map (\<lambda>record. \<lparr> address = raw_address record,
                                                   family = p_family pr,
                                                   ttl = raw_ttl record \<rparr>) recs,
                           rr = None \<rparr>),
                 next_array := Suc r,
                 promises := (promises s)(p := pr\<lparr> p_state := Fulfilled r \<rparr>) \<rparr>))"

text \<open>
  Lines 269-273, the first reaction to \<^verbatim>\<open>pendingPromise\<close>: on fulfilment
  \<^verbatim>\<open>addressCache.set(key, records)\<close> at clock reading \<open>now\<close>, on rejection nothing.
\<close>

definition cache_reaction :: "state \<Rightarrow> int \<Rightarrow> nat \<Rightarrow> state" where
  "cache_reaction s now p =
     (let pr = promises s p in
      case p_state pr of
        Fulfilled r \<Rightarrow>
          s\<lparr> addressCache :=
               AddressCache_set (arrays s) (addressCache s) now
                 (cache_key (p_hostname pr) (p_family pr)) r \<rparr>
      | _ \<Rightarrow> s)"

text \<open>Line 274: \<^verbatim>\<open>.finally(() => pendingLookups.delete(key))\<close>.\<close>

definition finally_reaction :: "state \<Rightarrow> nat \<Rightarrow> state" where
  "finally_reaction s p =
     (let pr = promises s p in
      s\<lparr> pendingLookups := (pendingLookups s)(cache_key (p_hostname pr) (p_family pr) := None) \<rparr>)"

text \<open>
  Lines 276-283, for a caller of \<^verbatim>\<open>resolve(hostname, _)\<close> suspended on promise \<open>p\<close>:
  the array it receives, or the error it throws; \<open>None\<close> while \<open>p\<close> is pending.
\<close>

definition resolve_await :: "state \<Rightarrow> nat \<Rightarrow> string \<Rightarrow> (js_error + nat) option" where
  "resolve_await s p host =
     (case p_state (promises s p) of
        Pending \<Rightarrow> None
      | Fulfilled r \<Rightarrow> Some (Inr r)
      | Rejected e \<Rightarrow>
          Some (Inl (if err_code e = JStr NODATA \<or> err_code e = JStr NONAME
                     then makeNotFoundError (err_code e) (err_syscall e) host
                     else e)))"

text \<open>Lines 286-302 applied to what line 277 yielded.\<close>

definition resolve_tail ::
  "state \<Rightarrow> bool \<Rightarrow> js_error + nat \<Rightarrow> (js_error + LookupAddress list) \<times> state" where
  "resolve_tail s all v =
     (case v of
        Inl e \<Rightarrow> (Inl e, s)
      | Inr r \<Rightarrow> (let (res, s') = resolve_finish s all r in (Inr res, s')))"

text \<open>The continuation of a suspended caller: lines 276-302.\<close>

definition resolve_resume ::
  "state \<Rightarrow> nat \<Rightarrow> string \<Rightarrow> bool \<Rightarrow> ((js_error + LookupAddress list) \<times> state) option" where
  "resolve_resume s p host all =
     (case resolve_await s p host of
        None \<Rightarrow> None
      | Some v \<Rightarrow> Some (resolve_tail s all v))"

section \<open>Dual-stack resolution\<close>

text \<open>
  \<^verbatim>\<open>wrapNotFound\<close>, lines 309-320, on the outcome of the promise it awaits
  (\<open>Inl\<close> a rejection).
\<close>

definition wrapNotFound :: "js_error + LookupAddress list \<Rightarrow> js_error + LookupAddress list" where
  "wrapNotFound outcome =
     (case outcome of
        Inr v \<Rightarrow> Inr v
      | Inl e \<Rightarrow> if err_code e = JStr NOTFOUND then Inr [] else Inl e)"

text \<open>
  Lines 322-324: \<^verbatim>\<open>resolveBoth\<close> calls \<^verbatim>\<open>resolve\<close> for IPv4 and then for IPv6;
  both calls run their synchronous part before anything is awaited.
\<close>

definition resolveBoth_begin ::
  "state \<Rightarrow> int \<Rightarrow> string \<Rightarrow> bool \<Rightarrow> (resolve_status \<times> resolve_status) \<times> state" where
  "resolveBoth_begin s now host all =
     (let (st4, s1) = resolve_begin s now host IPv4 all;
          (st6, s2) = resolve_begin s1 now host IPv6 all
      in ((st4, st6), s2))"

text \<open>
  Lines 322-340: \<^verbatim>\<open>Promise.all\<close> over the two wrapped branches and the callback
  that combines them, given the outcome of each \<^verbatim>\<open>resolve\<close> call.
  \<^verbatim>\<open>Promise.all\<close> rejects with the reason of the branch that rejects first;
  \<open>v6_first\<close> says that the IPv6 branch settles before the IPv4 branch.
\<close>

definition resolveBoth_then ::
  "string \<Rightarrow> bool \<Rightarrow> bool \<Rightarrow> js_error + LookupAddress list \<Rightarrow> js_error + LookupAddress list
     \<Rightarrow> js_error + LookupAddress list" where
  "resolveBoth_then host all v6_first o4 o6 =
     (case wrapNotFound o4 of
        Inl e4 \<Rightarrow>
          (case wrapNotFound o6 of
             Inl e6 \<Rightarrow> Inl (if v6_first then e6 else e4)
           | Inr v6records \<Rightarrow> Inl e4)
      | Inr v4records \<Rightarrow>
          (case wrapNotFound o6 of
             Inl e6 \<Rightarrow> Inl e6
           | Inr v6records \<Rightarrow>
               (let result = (if all then v4records @ v6records
                              else if length v4records > 0 then v4records
                              else v6records)
                in if length result = 0
                   then Inl (makeNotFoundError JUndefined (JStr ''getaddrinfo'') host)
                   else Inr result)))"

text \<open>
  \<^verbatim>\<open>resolveBoth\<close> when neither branch has to wait (both keys are cached): the two
  branches settle in call order.
\<close>

definition resolveBoth_cached ::
  "state \<Rightarrow> int \<Rightarrow> string \<Rightarrow> bool \<Rightarrow> ((js_error + LookupAddress list) \<times> state) option" where
  "resolveBoth_cached s now host all =
     (case resolveBoth_begin s now host all of
        ((Returned v4, Returned v6), s') \<Rightarrow>
          Some (resolveBoth_then host all False (Inr v4) (Inr v6), s')
      | _ \<Rightarrow> None)"

section \<open>Hints\<close>

text \<open>
  The flag values \<^verbatim>\<open>dns.ADDRCONFIG\<close>, \<^verbatim>\<open>dns.V4MAPPED\<close> and \<^verbatim>\<open>dns.ALL\<close> of
  Node's \<^verbatim>\<open>dns\<close> module depend on the platform; they are parameters.
\<close>

record dns_flags =
  dns_ADDRCONFIG :: int
  dns_V4MAPPED :: int
  dns_ALL :: int

text \<open>Truthiness of \<^verbatim>\<open>options.hints && options.hints & flag\<close>.\<close>

definition hints_has :: "int option \<Rightarrow> int \<Rightarrow> bool" where
  "hints_has hints flag =
     (case hints of None \<Rightarrow> False | Some h \<Rightarrow> h \<noteq> 0 \<and> (h AND flag) \<noteq> 0)"

text \<open>
  The loop of \<^verbatim>\<open>mapAddresses\<close>, lines 371-385.  \<open>toMapped\<close> stands for
  \<^verbatim>\<open>ipaddr.parse(a).toIPv4MappedAddress().toString()\<close> of the library
  \<^verbatim>\<open>ipaddr.js\<close> on the text of an IPv4 address.
\<close>

fun mapAddresses_loop ::
  "(string \<Rightarrow> string) \<Rightarrow> bool \<Rightarrow> LookupAddress list \<Rightarrow> LookupAddress list \<Rightarrow> LookupAddress list" where
  "mapAddresses_loop toMapped pushBothv4Andv4Mapped newResults [] = newResults"
| "mapAddresses_loop toMapped pushBothv4Andv4Mapped newResults (result # rest) =
     (if family result = IPv6
      then mapAddresses_loop toMapped pushBothv4Andv4Mapped (newResults @ [result]) rest
      else
        (let newResults1 = (if pushBothv4Andv4Mapped then newResults @ [result] else newResults)
         in mapAddresses_loop toMapped pushBothv4Andv4Mapped
              (newResults1 @ [\<lparr> address = toMapped (address result), family = IPv6 \<rparr>]) rest))"

text \<open>\<^verbatim>\<open>mapAddresses(results, options)\<close>, lines 365-387; \<open>hints\<close> is \<^verbatim>\<open>options.hints\<close>.\<close>

definition mapAddresses ::
  "(string \<Rightarrow> string) \<Rightarrow> dns_flags \<Rightarrow> int option \<Rightarrow> LookupAddress list \<Rightarrow> LookupAddress list" where
  "mapAddresses toMapped fl hints results =
     mapAddresses_loop toMapped (hints_has hints (dns_ALL fl)) [] results"

section \<open>Supported families\<close>

text \<open>
  An \<^verbatim>\<open>os.NetworkInterfaceInfo\<close>: \<^verbatim>\<open>family\<close> is a string up to Node 17 and a
  number from Node 18.
\<close>

record NetworkInterfaceInfo =
  internal :: bool
  net_family :: jsval

text \<open>\<^verbatim>\<open>Set.prototype.add\<close> on a set kept in insertion order.\<close>

definition Set_add :: "'a \<Rightarrow> 'a list \<Rightarrow> 'a list" where
  "Set_add x xs = (if x \<in> set xs then xs else xs @ [x])"

text \<open>The inner callback, lines 398-411.\<close>

definition net_step :: "NetworkInterfaceInfo \<Rightarrow> LookupType list \<Rightarrow> LookupType list" where
  "net_step net supported =
     (if internal net then supported
      else
        (let is_string = (case net_family net of JStr _ \<Rightarrow> True | _ \<Rightarrow> False);
             familyV4Value = (if is_string then JStr ''IPv4'' else JNum 4);
             familyV6Value = (if is_string then JStr ''IPv6'' else JNum 6)
         in if net_family net = familyV4Value then Set_add IPv4 supported
            else if net_family net = familyV6Value then Set_add IPv6 supported
            else supported))"

text \<open>The outer callback, lines 394-412; \<open>None\<close> is an \<^verbatim>\<open>undefined\<close> interface.\<close>

definition iface_step :: "NetworkInterfaceInfo list option \<Rightarrow> LookupType list \<Rightarrow> LookupType list" where
  "iface_step iface supported =
     (case iface of None \<Rightarrow> supported | Some nets \<Rightarrow> fold net_step nets supported)"

text \<open>
  \<^verbatim>\<open>getSupportedFamilies()\<close>, lines 390-425; \<open>ifaces\<close> is
  \<^verbatim>\<open>Object.values(os.networkInterfaces())\<close>.  On a set of one member,
  \<^verbatim>\<open>supported.entries().next().value\<close> is the entry \<^verbatim>\<open>[v, v]\<close> of that member.
\<close>

definition getSupportedFamilies ::
  "state \<Rightarrow> NetworkInterfaceInfo list option list \<Rightarrow> family_val \<times> state" where
  "getSupportedFamilies s ifaces =
     (case cachedSupportedFamilies s of
        None \<Rightarrow>
          (let supported = fold iface_step ifaces [] in
           if length supported = 0 \<or> length supported = 2
           then (FamUndefined, s\<lparr> cachedSupportedFamilies := Some FamUndefined \<rparr>)
           else
             (let result = (case supported of [] \<Rightarrow> FamUndefined | v # _ \<Rightarrow> FamEntry v v)
              in (result, s\<lparr> cachedSupportedFamilies := Some result \<rparr>)))
      | Some cached \<Rightarrow> (cached, s))"

text \<open>\<^verbatim>\<open>clearSupportedFamilies\<close> and \<^verbatim>\<open>setDefaults\<close>, lines 427-429 and 445-447.\<close>

definition clearSupportedFamilies :: "state \<Rightarrow> state" where
  "clearSupportedFamilies s = s\<lparr> cachedSupportedFamilies := None \<rparr>"

text \<open>
  The argument of \<^verbatim>\<open>setDefaults\<close> is a \<^verbatim>\<open>Partial<CacheDnsDefaults>\<close>: each key is
  absent (\<open>None\<close>) or present with a value, and the spread overrides the present keys.
\<close>

definition setDefaults :: "state \<Rightarrow> int option option \<Rightarrow> int option option \<Rightarrow> state" where
  "setDefaults s family_key hints_key =
     s\<lparr> cacheDnsDefaults :=
          \<lparr> defaultFamily = (case family_key of None \<Rightarrow> defaultFamily (cacheDnsDefaults s)
                                               | Some v \<Rightarrow> v),
            defaultHints = (case hints_key of None \<Rightarrow> defaultHints (cacheDnsDefaults s)
                                             | Some v \<Rightarrow> v) \<rparr> \<rparr>"

text \<open>The module as loaded: lines 54-58, 244 and 389.\<close>

definition initial_state :: state where
  "initial_state =
     \<lparr> arrays = (\<lambda>_. \<lparr> elems = [], rr = None \<rparr>),
       next_array = 0,
       addressCache = Map.empty,
       pendingLookups = Map.empty,
       promises = (\<lambda>_. \<lparr> p_state = Pending, p_hostname = [], p_family = IPv4 \<rparr>),
       next_promise = 0,
       resolver_calls = [],
       cacheDnsDefaults = \<lparr> defaultFamily = None, defaultHints = None \<rparr>,
       cachedSupportedFamilies = None \<rparr>"

section \<open>The entry point\<close>

text \<open>
  \<^verbatim>\<open>dns.LookupOptions\<close>, the fields the program reads.  The second argument of
  \<^verbatim>\<open>lookupPromise\<close> is a number, absent, or an options object.
\<close>

record LookupOptions =
  opt_family :: "int option"
  opt_hints :: "int option"
  opt_all :: bool

datatype lookup_arg = ArgFamily int | ArgNone | ArgOptions LookupOptions

text \<open>Lines 178-185.\<close>

definition arg_options :: "lookup_arg \<Rightarrow> LookupOptions" where
  "arg_options optionsOrFamily =
     (case optionsOrFamily of
        ArgFamily n \<Rightarrow> \<lparr> opt_family = Some n, opt_hints = None, opt_all = False \<rparr>
      | ArgNone \<Rightarrow> \<lparr> opt_family = None, opt_hints = None, opt_all = False \<rparr>
      | ArgOptions options \<Rightarrow> options)"

definition family_of :: "int option \<Rightarrow> family_val" where
  "family_of f = (case f of None \<Rightarrow> FamUndefined | Some n \<Rightarrow> FamNum n)"

text \<open>\<^verbatim>\<open>!options.family\<close> and \<^verbatim>\<open>!options.hints\<close>: an array is truthy.\<close>

definition family_falsy :: "family_val \<Rightarrow> bool" where
  "family_falsy f = (f = FamUndefined \<or> f = FamNum 0)"

definition hints_falsy :: "int option \<Rightarrow> bool" where
  "hints_falsy hints = (hints = None \<or> hints = Some 0)"

text \<open>Lines 187-192: the defaults are applied to a falsy family and to falsy hints.\<close>

definition default_family :: "state \<Rightarrow> LookupOptions \<Rightarrow> family_val" where
  "default_family s options =
     (if family_falsy (family_of (opt_family options))
      then family_of (defaultFamily (cacheDnsDefaults s))
      else family_of (opt_family options))"

definition default_hints :: "state \<Rightarrow> LookupOptions \<Rightarrow> int option" where
  "default_hints s options =
     (if hints_falsy (opt_hints options)
      then defaultHints (cacheDnsDefaults s)
      else opt_hints options)"

text \<open>
  What a lookup yields: an address object, the object \<^verbatim>\<open>{address: null, family}\<close> of
  line 201, a list, or \<^verbatim>\<open>undefined\<close> (\<^verbatim>\<open>results[0]\<close> of an empty list).
\<close>

datatype lookup_result =
  Address LookupAddress
| NullAddress LookupType
| AddressList "LookupAddress list"
| NoAddress

text \<open>\<^verbatim>\<open>resultHandler\<close>, lines 219-220.\<close>

definition resultHandler :: "bool \<Rightarrow> LookupAddress list \<Rightarrow> lookup_result" where
  "resultHandler all results =
     (if all then AddressList results
      else case results of [] \<Rightarrow> NoAddress | r # _ \<Rightarrow> Address r)"

text \<open>
  Lines 208-218: the family after the \<^verbatim>\<open>ADDRCONFIG\<close> restriction, or the error
  thrown at line 215.
\<close>

definition addrconfig_family ::
  "dns_flags \<Rightarrow> NetworkInterfaceInfo list option list \<Rightarrow> state \<Rightarrow> string \<Rightarrow> int option
     \<Rightarrow> family_val \<Rightarrow> (js_error + family_val) \<times> state" where
  "addrconfig_family fl ifaces s host hints fam =
     (if hints_has hints (dns_ADDRCONFIG fl)
      then
        (let (supportedFamilies, s') = getSupportedFamilies s ifaces in
         if supportedFamilies \<noteq> FamUndefined
         then
           (if family_falsy fam then (Inr supportedFamilies, s')
            else if fam \<noteq> supportedFamilies
            then (Inl (makeNotFoundError JUndefined (JStr ''getaddrinfo'') host), s')
            else (Inr fam, s'))
         else (Inr fam, s'))
      else (Inr fam, s))"

text \<open>
  Where \<^verbatim>\<open>lookupPromise\<close> stands after its synchronous part: settled with a result or
  an error, or waiting for \<^verbatim>\<open>resolve\<close>, for \<^verbatim>\<open>resolveBoth\<close>, or for
  \<^verbatim>\<open>resolveBoth\<close> followed by \<^verbatim>\<open>mapAddresses\<close>.
\<close>

datatype lookup_status =
  Settled "js_error + lookup_result"
| OnResolve resolve_status
| OnResolveBoth resolve_status resolve_status
| OnResolveBothMapped resolve_status resolve_status

text \<open>Lines 221-241: the dispatch on the family.\<close>

definition lookup_dispatch ::
  "dns_flags \<Rightarrow> state \<Rightarrow> int \<Rightarrow> string \<Rightarrow> int option \<Rightarrow> bool \<Rightarrow> family_val
     \<Rightarrow> lookup_status \<times> state" where
  "lookup_dispatch fl s now host hints all fam =
     (if fam = FamNum 6 \<and> hints_has hints (dns_V4MAPPED fl)
      then (let ((st4, st6), s') = resolveBoth_begin s now host all
            in (OnResolveBothMapped st4 st6, s'))
      else if fam = FamNum 4
      then (let (st, s') = resolve_begin s now host IPv4 all in (OnResolve st, s'))
      else if fam = FamNum 6
      then (let (st, s') = resolve_begin s now host IPv6 all in (OnResolve st, s'))
      else if fam = FamUndefined
      then (let ((st4, st6), s') = resolveBoth_begin s now host all
            in (OnResolveBoth st4 st6, s'))
      else (Settled (Inl (new_Error ''invalid family number'')), s))"

text \<open>
  The synchronous part of \<^verbatim>\<open>lookupPromise(hostname, optionsOrFamily)\<close>, lines
  174-241, at clock reading \<open>now\<close>, with the interfaces \<open>ifaces\<close> that
  \<^verbatim>\<open>os.networkInterfaces()\<close> reports.
\<close>

definition lookupPromise_begin ::
  "dns_flags \<Rightarrow> NetworkInterfaceInfo list option list \<Rightarrow> state \<Rightarrow> int \<Rightarrow> string \<Rightarrow> lookup_arg
     \<Rightarrow> lookup_status \<times> state" where
  "lookupPromise_begin fl ifaces s now host optionsOrFamily =
     (let options = arg_options optionsOrFamily;
          fam = default_family s options;
          hints = default_hints s options
      in if host = []
         then
           (let family = (if fam = FamNum 6 then IPv6 else IPv4) in
            if opt_all options then (Settled (Inr (AddressList [])), s)
            else (Settled (Inr (NullAddress family)), s))
         else
           (case addrconfig_family fl ifaces s host hints fam of
              (Inl e, s') \<Rightarrow> (Settled (Inl e), s')
            | (Inr fam', s') \<Rightarrow> lookup_dispatch fl s' now host hints (opt_all options) fam'))"

text \<open>
  The rest of \<^verbatim>\<open>lookupPromise\<close> once the awaited call has settled with \<open>outcome\<close>:
  \<^verbatim>\<open>.then(resultHandler)\<close> of lines 234-238, and
  \<^verbatim>\<open>.then(results => mapAddresses(results, options)).then(resultHandler)\<close> of lines
  227-229.
\<close>

definition lookup_then :: "bool \<Rightarrow> js_error + LookupAddress list \<Rightarrow> js_error + lookup_result" where
  "lookup_then all outcome =
     (case outcome of Inl e \<Rightarrow> Inl e | Inr results \<Rightarrow> Inr (resultHandler all results))"

definition lookup_mapped_then ::
  "(string \<Rightarrow> string) \<Rightarrow> dns_flags \<Rightarrow> int option \<Rightarrow> bool \<Rightarrow> js_error + LookupAddress list
     \<Rightarrow> js_error + lookup_result" where
  "lookup_mapped_then toMapped fl hints all outcome =
     (case outcome of
        Inl e \<Rightarrow> Inl e
      | Inr results \<Rightarrow> Inr (resultHandler all (mapAddresses toMapped fl hints results)))"

section \<open>Several callers\<close>

text \<open>
  Callers of \<^verbatim>\<open>resolve(host, {family: fam, all})\<close>, one after the other, each given
  by its clock reading and its \<^verbatim>\<open>all\<close> option: the synchronous part of each call.
\<close>

fun resolve_begin_all ::
  "state \<Rightarrow> string \<Rightarrow> LookupType \<Rightarrow> (int \<times> bool) list \<Rightarrow> resolve_status list \<times> state" where
  "resolve_begin_all s host fam [] = ([], s)"
| "resolve_begin_all s host fam ((now, all) # callers) =
     (let (st, s1) = resolve_begin s now host fam all;
          (sts, s2) = resolve_begin_all s1 host fam callers
      in (st # sts, s2))"

text \<open>
  The continuations of the callers, in call order: a caller that had returned keeps its
  result, a suspended one resumes on its promise (\<open>None\<close> if that promise is pending).
\<close>

fun resume_all ::
  "state \<Rightarrow> string \<Rightarrow> (resolve_status \<times> bool) list
     \<Rightarrow> (js_error + LookupAddress list) option list \<times> state" where
  "resume_all s host [] = ([], s)"
| "resume_all s host ((Returned res, all) # waiting) =
     (let (rs, s1) = resume_all s host waiting in (Some (Inr res) # rs, s1))"
| "resume_all s host ((Awaiting p, all) # waiting) =
     (case resolve_resume s p host all of
        None \<Rightarrow> (let (rs, s1) = resume_all s host waiting in (None # rs, s1))
      | Some (r, s1) \<Rightarrow> (let (rs, s2) = resume_all s1 host waiting in (Some r # rs, s2)))"

text \<open>
  The jobs run when the external call behind promise \<open>p\<close> settles with \<open>outcome\<close>, in
  the order in which the reactions were registered: the callback of lines 259-266, the
  cache reaction of lines 269-273 (registered by the call that created \<open>p\<close>, before it
  suspended), the continuation of every caller, and the \<^verbatim>\<open>finally\<close> reaction of
  line 274, which waits for the cache reaction.
\<close>

definition settle_jobs ::
  "state \<Rightarrow> int \<Rightarrow> nat \<Rightarrow> js_error + RecordWithTtl list \<Rightarrow> string \<Rightarrow> (resolve_status \<times> bool) list
     \<Rightarrow> (js_error + LookupAddress list) option list \<times> state" where
  "settle_jobs s now p outcome host waiting =
     (let s1 = external_settled s p outcome;
          s2 = cache_reaction s1 now p;
          (rs, s3) = resume_all s2 host waiting
      in (rs, finally_reaction s3 p))"

text \<open>Lines 286-302 run for each caller in turn on one awaited value \<open>v\<close>.\<close>

fun resolve_tail_all ::
  "state \<Rightarrow> js_error + nat \<Rightarrow> bool list \<Rightarrow> (js_error + LookupAddress list) list \<times> state" where
  "resolve_tail_all s v [] = ([], s)"
| "resolve_tail_all s v (all # alls) =
     (let (r, s1) = resolve_tail s all v;
          (rs, s2) = resolve_tail_all s1 v alls
      in (r # rs, s2))"

text \<open>
  \<open>k\<close> successive calls of \<^verbatim>\<open>roundRobin\<close> on one array object: what each call
  selects, and the cursor the last one leaves.
\<close>

fun roundRobin_times :: "nat \<Rightarrow> 'a list \<Rightarrow> int option \<Rightarrow> 'a option list \<times> int option" where
  "roundRobin_times 0 arr c = ([], c)"
| "roundRobin_times (Suc k) arr c =
     (let (sel, c1) = roundRobin arr c;
          (sels, c2) = roundRobin_times k arr c1
      in (sel # sels, c2))"

section \<open>Properties of the address cache\<close>

lemma fold_min_shift:
  "fold min (map (\<lambda>t. now + t * 1000) ts) (now + t * 1000) = now + Min (set (t # ts)) * (1000::int)"
proof -
  have m: "mono (\<lambda>t::int. now + t * 1000)" by (rule monoI) simp
  have "fold min (map (\<lambda>t. now + t * 1000) ts) (now + t * 1000)
        = Min (set (map (\<lambda>t. now + t * 1000) (t # ts)))"
    using Min.set_eq_fold [of "now + t * 1000" "map (\<lambda>t. now + t * 1000) ts"] by simp
  also have "\<dots> = Min ((\<lambda>t. now + t * 1000) ` set (t # ts))" by simp
  also have "\<dots> = now + Min (set (t # ts)) * 1000"
    using mono_Min_commute [OF m, of "set (t # ts)"] by simp
  finally show ?thesis .
qed

lemma AddressCache_set_empty: "elems (h r) = [] \<Longrightarrow> AddressCache_set h c now key r = c"
  by (simp add: AddressCache_set_def)

lemma AddressCache_set_nonempty:
  assumes "elems (h r) \<noteq> []"
  shows "AddressCache_set h c now key r =
           c(key \<mapsto> \<lparr> records = r, expiry = now + Min (set (map ttl (elems (h r)))) * 1000 \<rparr>)"
proof -
  obtain x xs where e: "elems (h r) = x # xs" using assms by (cases "elems (h r)") auto
  have "fold min (map (\<lambda>t. now + t * 1000) (map ttl xs)) (now + ttl x * 1000)
          = now + Min (set (ttl x # map ttl xs)) * 1000"
    by (rule fold_min_shift)
  then show ?thesis
    by (simp add: AddressCache_set_def e comp_def)
qed

lemma AddressCache_get_stale:
  "c key = Some e \<Longrightarrow> expiry e \<le> now \<or> elems (h (records e)) = [] \<Longrightarrow>
     AddressCache_get h c now key = (None, c(key := None))"
  by (auto simp: AddressCache_get_def)

lemma AddressCache_get_absent:
  "c key = None \<Longrightarrow> AddressCache_get h c now key = (None, c)"
  by (simp add: AddressCache_get_def)

lemma AddressCache_get_Some:
  "fst (AddressCache_get h c now key) = Some r \<Longrightarrow>
     \<exists>e. c key = Some e \<and> records e = r \<and> now < expiry e \<and> elems (h r) \<noteq> []
        \<and> snd (AddressCache_get h c now key) = c"
  by (auto simp: AddressCache_get_def split: option.splits if_splits)

text \<open>
  Claim C7.  \<^verbatim>\<open>AddressCache.set\<close> with an array of no records leaves the cache as it
  is; with a non-empty array it binds the key (whatever was bound before) to an entry
  holding that array and the expiry \<open>now + min ttl * 1000\<close>, for the clock reading \<open>now\<close>
  of the insertion.  \<^verbatim>\<open>AddressCache.get\<close> on an entry whose expiry has passed
  (\<open>expiry \<le> now\<close>) or whose array is empty answers \<^verbatim>\<open>null\<close> and deletes the entry;
  on an absent key it answers \<^verbatim>\<open>null\<close>; and whenever it answers an array, that array
  is the stored one, it is not empty, its entry has not expired, and the cache is unchanged.
\<close>

theorem AddressCache_set_get:
  "(elems (h r) = [] \<longrightarrow> AddressCache_set h c now key r = c)
   \<and> (elems (h r) \<noteq> [] \<longrightarrow>
        AddressCache_set h c now key r =
          c(key \<mapsto> \<lparr> records = r, expiry = now + Min (set (map ttl (elems (h r)))) * 1000 \<rparr>))
   \<and> (\<forall>e. c key = Some e \<and> (expiry e \<le> now \<or> elems (h (records e)) = []) \<longrightarrow>
        AddressCache_get h c now key = (None, c(key := None)))
   \<and> (c key = None \<longrightarrow> AddressCache_get h c now key = (None, c))
   \<and> (\<forall>r'. fst (AddressCache_get h c now key) = Some r' \<longrightarrow>
        (\<exists>e. c key = Some e \<and> records e = r' \<and> now < expiry e \<and> elems (h r') \<noteq> []
             \<and> snd (AddressCache_get h c now key) = c))"
  using AddressCache_set_empty [of h r c now key] AddressCache_set_nonempty [of h r c now key]
        AddressCache_get_stale [of c key _ now h] AddressCache_get_absent [of c key h now]
        AddressCache_get_Some [of h c now key]
  by blast

theorem AddressCache_set_get_witness:
  "AddressCache_set
      (\<lambda>_. \<lparr> elems = [\<lparr> address = ''10.0.0.1'', family = IPv4, ttl = 30 \<rparr>,
                       \<lparr> address = ''10.0.0.2'', family = IPv4, ttl = 5 \<rparr>], rr = None \<rparr>)
      [''a_4'' \<mapsto> \<lparr> records = 0, expiry = 500 \<rparr>] 1000 ''a_4'' 0
     = [''a_4'' \<mapsto> \<lparr> records = 0, expiry = 6000 \<rparr>]
   \<and> AddressCache_get
      (\<lambda>_. \<lparr> elems = [\<lparr> address = ''10.0.0.1'', family = IPv4, ttl = 30 \<rparr>,
                       \<lparr> address = ''10.0.0.2'', family = IPv4, ttl = 5 \<rparr>], rr = None \<rparr>)
      [''a_4'' \<mapsto> \<lparr> records = 0, expiry = 500 \<rparr>] 1000 ''a_4''
     = (None, Map.empty)"
  using AddressCache_set_get
    [where h = "\<lambda>_. \<lparr> elems = [\<lparr> address = ''10.0.0.1'', family = IPv4, ttl = 30 \<rparr>,
                                 \<lparr> address = ''10.0.0.2'', family = IPv4, ttl = 5 \<rparr>], rr = None \<rparr>"
       and c = "[''a_4'' \<mapsto> \<lparr> records = 0, expiry = 500 \<rparr>]"
       and now = 1000 and key = "''a_4''" and r = 0]
  by simp

section \<open>Properties of the address mapping\<close>

lemma mapAddresses_loop_concat:
  "mapAddresses_loop toMapped push acc results =
     acc @ concat (map (\<lambda>result.
        if family result = IPv6 then [result]
        else if push then [result, \<lparr> address = toMapped (address result), family = IPv6 \<rparr>]
        else [\<lparr> address = toMapped (address result), family = IPv6 \<rparr>]) results)"
  by (induction results arbitrary: acc) (simp_all add: Let_def)

text \<open>
  Claim C8.  \<^verbatim>\<open>mapAddresses\<close> yields, entry by entry and in the order of its input:
  an IPv6 entry itself; for any other entry, when \<^verbatim>\<open>options.hints\<close> has the
  \<^verbatim>\<open>dns.ALL\<close> bit, the entry itself followed at once by its mapped form tagged IPv6,
  and when it has not, the mapped form tagged IPv6 alone.
\<close>

theorem mapAddresses_entries:
  "mapAddresses toMapped fl hints results =
     concat (map (\<lambda>result.
        if family result = IPv6 then [result]
        else if hints_has hints (dns_ALL fl)
             then [result, \<lparr> address = toMapped (address result), family = IPv6 \<rparr>]
             else [\<lparr> address = toMapped (address result), family = IPv6 \<rparr>]) results)"
  by (simp add: mapAddresses_def mapAddresses_loop_concat)

section \<open>Properties of the dual-stack combination\<close>

text \<open>
  Claim C3.  Let \<open>v4\<close> and \<open>v6\<close> be what the wrapped IPv4 and IPv6 branches yield.
  With \<^verbatim>\<open>all\<close>, \<^verbatim>\<open>resolveBoth\<close> yields \<open>v4\<close> followed by \<open>v6\<close>; without it, \<open>v4\<close>
  when \<open>v4\<close> is not empty and \<open>v6\<close> otherwise; when both are empty it throws the not-found
  error for the hostname.  \<^verbatim>\<open>wrapNotFound\<close> turns a rejection whose code is
  \<^verbatim>\<open>dns.NOTFOUND\<close> into the empty list and passes everything else on; and when a
  branch rejects with any other error, \<^verbatim>\<open>resolveBoth\<close> rejects with such an error of
  one of its branches.
\<close>

theorem resolveBoth_combination:
  "(wrapNotFound o4 = Inr v4 \<and> wrapNotFound o6 = Inr v6 \<longrightarrow>
       (all \<and> v4 @ v6 \<noteq> [] \<longrightarrow> resolveBoth_then host all v6_first o4 o6 = Inr (v4 @ v6))
     \<and> (\<not> all \<and> v4 \<noteq> [] \<longrightarrow> resolveBoth_then host all v6_first o4 o6 = Inr v4)
     \<and> (\<not> all \<and> v4 = [] \<and> v6 \<noteq> [] \<longrightarrow> resolveBoth_then host all v6_first o4 o6 = Inr v6)
     \<and> (v4 = [] \<and> v6 = [] \<longrightarrow>
          resolveBoth_then host all v6_first o4 o6
            = Inl (makeNotFoundError JUndefined (JStr ''getaddrinfo'') host)
          \<and> err_code (makeNotFoundError JUndefined (JStr ''getaddrinfo'') host) = JStr NOTFOUND
          \<and> err_hostname (makeNotFoundError JUndefined (JStr ''getaddrinfo'') host)
              = (if host = [] then JUndefined else JStr host)))
   \<and> (\<forall>e. err_code e = JStr NOTFOUND \<longrightarrow> wrapNotFound (Inl e) = Inr [])
   \<and> (\<forall>e. err_code e \<noteq> JStr NOTFOUND \<longrightarrow> wrapNotFound (Inl e) = Inl e)
   \<and> (\<forall>v. wrapNotFound (Inr v) = Inr v)
   \<and> (\<forall>e. err_code e \<noteq> JStr NOTFOUND \<and> (o4 = Inl e \<or> o6 = Inl e) \<longrightarrow>
         (\<exists>e'. resolveBoth_then host all v6_first o4 o6 = Inl e'
               \<and> err_code e' \<noteq> JStr NOTFOUND \<and> (o4 = Inl e' \<or> o6 = Inl e')))"
  by (auto simp: resolveBoth_then_def wrapNotFound_def makeNotFoundError_def
           split: sum.splits if_splits)

text \<open>
  A not-found IPv4 branch with an IPv6 record gives the IPv6 record; with \<^verbatim>\<open>all\<close>,
  an IPv4 and an IPv6 record come back in that order.
\<close>

theorem resolveBoth_combination_witness:
  "resolveBoth_then ''h'' False False
      (Inl (makeNotFoundError JUndefined (JStr ''getaddrinfo'') ''h''))
      (Inr [\<lparr> address = ''::1'', family = IPv6 \<rparr>])
     = Inr [\<lparr> address = ''::1'', family = IPv6 \<rparr>]
   \<and> resolveBoth_then ''h'' True False
      (Inr [\<lparr> address = ''10.0.0.1'', family = IPv4 \<rparr>])
      (Inr [\<lparr> address = ''::1'', family = IPv6 \<rparr>])
     = Inr [\<lparr> address = ''10.0.0.1'', family = IPv4 \<rparr>, \<lparr> address = ''::1'', family = IPv6 \<rparr>]"
  using resolveBoth_combination
          [where ?o4.0 = "Inl (makeNotFoundError JUndefined (JStr ''getaddrinfo'') ''h'')"
             and ?o6.0 = "Inr [\<lparr> address = ''::1'', family = IPv6 \<rparr>]"
             and ?v4.0 = "[]" and ?v6.0 = "[\<lparr> address = ''::1'', family = IPv6 \<rparr>]"
             and all = False and host = "''h''" and v6_first = False]
        resolveBoth_combination
          [where ?o4.0 = "Inr [\<lparr> address = ''10.0.0.1'', family = IPv4 \<rparr>]"
             and ?o6.0 = "Inr [\<lparr> address = ''::1'', family = IPv6 \<rparr>]"
             and ?v4.0 = "[\<lparr> address = ''10.0.0.1'', family = IPv4 \<rparr>]"
             and ?v6.0 = "[\<lparr> address = ''::1'', family = IPv6 \<rparr>]"
             and all = True and host = "''h''" and v6_first = False]
  by (simp add: wrapNotFound_def makeNotFoundError_def)

section \<open>Properties of the empty hostname\<close>

text \<open>
  Claim C9, as amended.  For the empty hostname \<^verbatim>\<open>lookupPromise\<close> settles in its
  synchronous part and leaves the whole module state as it was (no resolver call, no
  cache or pending-map access, no interface enumeration).  With \<^verbatim>\<open>all\<close> it yields
  the empty list; otherwise the object \<^verbatim>\<open>{address: null, family}\<close> whose family is
  IPv6 exactly when the family in force is 6, and IPv4 otherwise.  The family in force is
  the requested one, or \<^verbatim>\<open>defaultFamily\<close> when none (or 0) was requested.
\<close>

theorem empty_hostname:
  "lookupPromise_begin fl ifaces s now [] optionsOrFamily =
     (Settled (Inr (if opt_all (arg_options optionsOrFamily) then AddressList []
                    else NullAddress (if default_family s (arg_options optionsOrFamily) = FamNum 6
                                      then IPv6 else IPv4))), s)
   \<and> (default_family s options = FamNum 6 \<longleftrightarrow>
          opt_family options = Some 6
          \<or> (opt_family options = None \<or> opt_family options = Some 0)
             \<and> defaultFamily (cacheDnsDefaults s) = Some 6)"
  by (auto simp: lookupPromise_begin_def Let_def default_family_def family_falsy_def family_of_def
           split: option.splits)

text \<open>
  With no default family configured, a lookup of the empty hostname that names no
  family is tagged IPv4, and one that names family 6 is tagged IPv6.
\<close>

theorem empty_hostname_witness:
  "lookupPromise_begin \<lparr> dns_ADDRCONFIG = 32, dns_V4MAPPED = 8, dns_ALL = 16 \<rparr> [] initial_state 0 [] ArgNone
     = (Settled (Inr (NullAddress IPv4)), initial_state)
   \<and> lookupPromise_begin \<lparr> dns_ADDRCONFIG = 32, dns_V4MAPPED = 8, dns_ALL = 16 \<rparr> [] initial_state 0 []
        (ArgFamily 6)
     = (Settled (Inr (NullAddress IPv6)), initial_state)"
  using empty_hostname [where fl = "\<lparr> dns_ADDRCONFIG = 32, dns_V4MAPPED = 8, dns_ALL = 16 \<rparr>"
                          and ifaces = "[]" and s = initial_state and now = 0
                          and optionsOrFamily = ArgNone and options = "arg_options ArgNone"]
        empty_hostname [where fl = "\<lparr> dns_ADDRCONFIG = 32, dns_V4MAPPED = 8, dns_ALL = 16 \<rparr>"
                          and ifaces = "[]" and s = initial_state and now = 0
                          and optionsOrFamily = "ArgFamily 6" and options = "arg_options (ArgFamily 6)"]
  by (simp add: arg_options_def initial_state_def)

text \<open>
  Claim C9 as stated fails: after \<^verbatim>\<open>setDefaults({defaultFamily: 6})\<close> a lookup of the
  empty hostname that specifies no family is tagged IPv6, not IPv4.
\<close>

theorem empty_hostname_default_family_counterexample:
  "fst (lookupPromise_begin \<lparr> dns_ADDRCONFIG = 32, dns_V4MAPPED = 8, dns_ALL = 16 \<rparr> []
          (setDefaults initial_state (Some (Some 6)) None) 0 [] ArgNone)
     = Settled (Inr (NullAddress IPv6))
   \<and> fst (lookupPromise_begin \<lparr> dns_ADDRCONFIG = 32, dns_V4MAPPED = 8, dns_ALL = 16 \<rparr> []
          (setDefaults initial_state (Some (Some 6)) None) 0 [] ArgNone)
     \<noteq> Settled (Inr (NullAddress IPv4))"
  by (simp add: lookupPromise_begin_def Let_def setDefaults_def initial_state_def arg_options_def
        default_family_def family_falsy_def family_of_def)

section \<open>Properties of the round-robin selection\<close>

lemma roundRobin_empty: "roundRobin [] c = (None, c)"
  by (simp add: roundRobin_def)

lemma roundRobin_fresh: "arr \<noteq> [] \<Longrightarrow> roundRobin arr None = (Some (arr ! 0), Some 0)"
  by (simp add: roundRobin_def)

lemma roundRobin_step:
  assumes "i < length arr"
  shows "roundRobin arr (Some (int i)) =
           (Some (arr ! (Suc i mod length arr)), Some (int (Suc i mod length arr)))"
proof (cases "length arr = 1")
  case True
  with assms show ?thesis by (simp add: roundRobin_def)
next
  case False
  show ?thesis
  proof (cases "Suc i = length arr")
    case True
    with False assms show ?thesis by (auto simp: roundRobin_def)
  next
    case ne: False
    with assms have lt: "Suc i < length arr" by simp
    then have "\<not> int i \<ge> int (length arr) - 1" by simp
    moreover have "arr \<noteq> []" using assms by auto
    moreover have "nat (int i + 1) = Suc i" by simp
    ultimately show ?thesis
      using False lt by (simp add: roundRobin_def)
  qed
qed

lemma roundRobin_times_from:
  assumes "i < length arr"
  shows "fst (roundRobin_times k arr (Some (int i)))
           = map (\<lambda>j. Some (arr ! ((Suc i + j) mod length arr))) [0..<k]"
  using assms
proof (induction k arbitrary: i)
  case 0
  then show ?case by simp
next
  case (Suc k)
  let ?n = "length arr"
  have n: "0 < ?n" using Suc.prems by (cases arr) auto
  have lt: "Suc i mod ?n < ?n" using n by simp
  have "fst (roundRobin_times (Suc k) arr (Some (int i)))
          = Some (arr ! (Suc i mod ?n)) # fst (roundRobin_times k arr (Some (int (Suc i mod ?n))))"
    unfolding roundRobin_times.simps roundRobin_step [OF Suc.prems]
    by (simp split: prod.splits)
  also have "\<dots> = Some (arr ! (Suc i mod ?n))
                     # map (\<lambda>j. Some (arr ! ((Suc (Suc i mod ?n) + j) mod ?n))) [0..<k]"
    by (simp add: Suc.IH [OF lt])
  also have "\<dots> = Some (arr ! (Suc i mod ?n))
                     # map (\<lambda>j. Some (arr ! ((Suc i + Suc j) mod ?n))) [0..<k]"
  proof -
    have "\<And>j. (Suc (Suc i mod ?n) + j) mod ?n = (Suc i + Suc j) mod ?n"
      by (metis add_Suc add_Suc_right mod_add_left_eq)
    then show ?thesis by simp
  qed
  also have "\<dots> = map (\<lambda>j. Some (arr ! ((Suc i + j) mod ?n))) [0..<Suc k]"
    by (simp add: upt_rec [of 0 "Suc k"] map_Suc_upt [symmetric] del: upt_Suc)
  finally show ?case .
qed

lemma roundRobin_times_fresh:
  assumes "arr \<noteq> []"
  shows "fst (roundRobin_times k arr None) = map (\<lambda>j. Some (arr ! (j mod length arr))) [0..<k]"
proof (cases k)
  case 0
  then show ?thesis by simp
next
  case (Suc k')
  have n: "0 < length arr" using assms by simp
  have "fst (roundRobin_times (Suc k') arr None)
          = Some (arr ! 0) # fst (roundRobin_times k' arr (Some (int 0)))"
    by (simp add: roundRobin_fresh [OF assms] split: prod.splits)
  also have "\<dots> = Some (arr ! 0) # map (\<lambda>j. Some (arr ! ((Suc 0 + j) mod length arr))) [0..<k']"
    using roundRobin_times_from [OF n, of k'] by simp
  also have "\<dots> = map (\<lambda>j. Some (arr ! (j mod length arr))) [0..<Suc k']"
    by (simp add: upt_rec [of 0 "Suc k'"] map_Suc_upt [symmetric] del: upt_Suc)
  finally show ?thesis using Suc by simp
qed

section \<open>Properties of single-family resolution\<close>

lemma show_int_family:
  "show_int 4 = ''4''"
  "show_int 6 = ''6''"
  by (simp_all add: show_int_def show_nat.simps digit_char_def)

lemma cache_key_simps:
  "cache_key host IPv4 = host @ ''_4''"
  "cache_key host IPv6 = host @ ''_6''"
  by (simp_all add: cache_key_def show_int_family)

lemma cache_key_inj: "cache_key h f = cache_key h' f' \<longleftrightarrow> h = h' \<and> f = f'"
  by (cases f; cases f') (auto simp: cache_key_simps)

lemma resolve_finish_fields:
  "addressCache (snd (resolve_finish s all r)) = addressCache s"
  "pendingLookups (snd (resolve_finish s all r)) = pendingLookups s"
  "promises (snd (resolve_finish s all r)) = promises s"
  "next_promise (snd (resolve_finish s all r)) = next_promise s"
  "next_array (snd (resolve_finish s all r)) = next_array s"
  "resolver_calls (snd (resolve_finish s all r)) = resolver_calls s"
  "cacheDnsDefaults (snd (resolve_finish s all r)) = cacheDnsDefaults s"
  "cachedSupportedFamilies (snd (resolve_finish s all r)) = cachedSupportedFamilies s"
  by (simp_all add: resolve_finish_def Let_def split: prod.splits option.splits)

lemma resolve_finish_all: "resolve_finish s True r = (map to_LookupAddress (elems (arrays s r)), s)"
  by (simp add: resolve_finish_def)

lemma resolve_finish_one:
  "resolve_finish s False r =
     ((case fst (roundRobin (elems (arrays s r)) (rr (arrays s r))) of
         None \<Rightarrow> [] | Some record \<Rightarrow> [to_LookupAddress record]),
      s\<lparr> arrays := (arrays s)
            (r := (arrays s r)\<lparr> rr := snd (roundRobin (elems (arrays s r)) (rr (arrays s r))) \<rparr>) \<rparr>)"
  by (simp add: resolve_finish_def Let_def split: prod.splits option.splits)

lemma resolve_begin_miss:
  assumes "fst (AddressCache_get (arrays s) (addressCache s) now (cache_key host fam)) = None"
      and "pendingLookups s (cache_key host fam) = None"
  shows "resolve_begin s now host fam all =
           (Awaiting (next_promise s),
            s\<lparr> addressCache := (addressCache s)(cache_key host fam := None),
               promises := (promises s)
                 (next_promise s := \<lparr> p_state = Pending, p_hostname = host, p_family = fam \<rparr>),
               next_promise := Suc (next_promise s),
               pendingLookups := (pendingLookups s)(cache_key host fam \<mapsto> next_promise s),
               resolver_calls := resolver_calls s
                  @ [(if fam = IPv6 then resolve6 else resolve4, host)] \<rparr>)"
proof -
  have "AddressCache_get (arrays s) (addressCache s) now (cache_key host fam)
          = (None, (addressCache s)(cache_key host fam := None))"
    using assms(1)
    by (auto simp: AddressCache_get_def split: option.splits if_splits)
  then show ?thesis
    using assms(2) by (simp add: resolve_begin_def Let_def)
qed

lemma resolve_begin_attach:
  assumes "addressCache s (cache_key host fam) = None"
      and "pendingLookups s (cache_key host fam) = Some p"
  shows "resolve_begin s now host fam all = (Awaiting p, s)"
  using assms by (simp add: resolve_begin_def AddressCache_get_def Let_def)

lemma resolve_begin_hit:
  assumes "addressCache s (cache_key host fam) = Some e"
      and "now < expiry e" and "elems (arrays s (records e)) \<noteq> []"
  shows "resolve_begin s now host fam all =
           (Returned (fst (resolve_finish s all (records e))), snd (resolve_finish s all (records e)))"
  using assms by (simp add: resolve_begin_def AddressCache_get_def Let_def split: prod.splits)

lemma resolve_begin_all_attach:
  assumes "addressCache s (cache_key host fam) = None"
      and "pendingLookups s (cache_key host fam) = Some p"
  shows "resolve_begin_all s host fam callers = (replicate (length callers) (Awaiting p), s)"
  using assms
  by (induction callers) (auto simp: resolve_begin_attach)

lemma roundRobin_selects:
  "arr \<noteq> [] \<Longrightarrow> \<exists>x. fst (roundRobin arr c) = Some x \<and> x \<in> set arr"
  by (cases c) (auto simp: roundRobin_def)

lemma roundRobin_moves:
  assumes "arr \<noteq> []" and "c = None \<or> 2 \<le> length arr"
  shows "snd (roundRobin arr c) \<noteq> c"
  using assms by (cases c) (auto simp: roundRobin_def)

lemma resolve_begin_all_cached:
  assumes "addressCache s (cache_key host fam) = Some e"
      and "elems (arrays s (records e)) \<noteq> []"
      and "\<forall>now\<in>set nows. now < expiry e"
  shows "resolve_begin_all s host fam (map (\<lambda>now. (now, False)) nows) =
           (map (\<lambda>sel. Returned (case sel of None \<Rightarrow> [] | Some record \<Rightarrow> [to_LookupAddress record]))
              (fst (roundRobin_times (length nows) (elems (arrays s (records e)))
                      (rr (arrays s (records e))))),
            s\<lparr> arrays := (arrays s)
                  (records e := (arrays s (records e))
                     \<lparr> rr := snd (roundRobin_times (length nows) (elems (arrays s (records e)))
                                   (rr (arrays s (records e)))) \<rparr>) \<rparr>)"
  using assms
proof (induction nows arbitrary: s)
  case Nil
  then show ?case by simp
next
  case (Cons now nows)
  let ?r = "records e"
  let ?arr = "arrays s ?r"
  let ?c1 = "snd (roundRobin (elems ?arr) (rr ?arr))"
  let ?s1 = "s\<lparr> arrays := (arrays s)(?r := ?arr\<lparr> rr := ?c1 \<rparr>) \<rparr>"
  have now: "now < expiry e" using Cons.prems(3) by simp
  have b: "resolve_begin s now host fam False =
             (Returned (case fst (roundRobin (elems ?arr) (rr ?arr)) of
                          None \<Rightarrow> [] | Some record \<Rightarrow> [to_LookupAddress record]), ?s1)"
    by (simp add: resolve_begin_hit [OF Cons.prems(1) now Cons.prems(2)] resolve_finish_one)
  have p1: "addressCache ?s1 (cache_key host fam) = Some e" using Cons.prems(1) by simp
  have p2: "elems (arrays ?s1 (records e)) \<noteq> []" using Cons.prems(2) by simp
  have p3: "\<forall>now\<in>set nows. now < expiry e" using Cons.prems(3) by simp
  note ih = Cons.IH [OF p1 p2 p3]
  show ?case
    apply (simp add: b ih case_prod_beta Let_def)
    apply (rule arg_cong [where f = "\<lambda>f. s\<lparr> arrays := f \<rparr>"])
    apply (rule ext)
    apply simp
    done
qed

text \<open>
  Claim C4.  On a non-empty array whose cursor is not yet set, the \<open>k\<close> first
  selections of \<^verbatim>\<open>roundRobin\<close> return the elements at indices \<open>0, 1, \<dots>, n-1, 0, 1, \<dots>\<close>
  (the \<open>j\<close>-th one the element at \<open>j mod n\<close>); from a cursor at index \<open>i\<close> the rotation
  goes on with \<open>i+1\<close>; on the empty array nothing is selected.  So the successive
  single-result calls of \<^verbatim>\<open>resolve\<close> against one unexpired cache entry, whose array has
  no cursor yet, return the records at indices \<open>0, 1, \<dots>, n-1, 0, \<dots>\<close> in that order.
\<close>

theorem round_robin_rotation:
  "(arr \<noteq> [] \<longrightarrow>
      fst (roundRobin_times k arr None) = map (\<lambda>j. Some (arr ! (j mod length arr))) [0..<k])
   \<and> (i < length arr \<longrightarrow>
      fst (roundRobin_times k arr (Some (int i)))
        = map (\<lambda>j. Some (arr ! ((Suc i + j) mod length arr))) [0..<k])
   \<and> roundRobin ([] :: 'a list) c = (None, c)
   \<and> (addressCache s (cache_key host fam) = Some e \<and> elems (arrays s (records e)) = recs
        \<and> recs \<noteq> [] \<and> rr (arrays s (records e)) = None \<and> (\<forall>now\<in>set nows. now < expiry e) \<longrightarrow>
        fst (resolve_begin_all s host fam (map (\<lambda>now. (now, False)) nows))
          = map (\<lambda>j. Returned [to_LookupAddress (recs ! (j mod length recs))]) [0..<length nows])"
proof (intro conjI impI)
  assume "arr \<noteq> []"
  then show "fst (roundRobin_times k arr None) = map (\<lambda>j. Some (arr ! (j mod length arr))) [0..<k]"
    by (rule roundRobin_times_fresh)
next
  assume "i < length arr"
  then show "fst (roundRobin_times k arr (Some (int i)))
               = map (\<lambda>j. Some (arr ! ((Suc i + j) mod length arr))) [0..<k]"
    by (rule roundRobin_times_from)
next
  show "roundRobin ([] :: 'a list) c = (None, c)" by (rule roundRobin_empty)
next
  assume a: "addressCache s (cache_key host fam) = Some e \<and> elems (arrays s (records e)) = recs
        \<and> recs \<noteq> [] \<and> rr (arrays s (records e)) = None \<and> (\<forall>now\<in>set nows. now < expiry e)"
  then have c: "addressCache s (cache_key host fam) = Some e"
    and n: "elems (arrays s (records e)) \<noteq> []"
    and t: "\<forall>now\<in>set nows. now < expiry e" by auto
  have "fst (resolve_begin_all s host fam (map (\<lambda>now. (now, False)) nows))
          = map (\<lambda>sel. Returned (case sel of None \<Rightarrow> [] | Some record \<Rightarrow> [to_LookupAddress record]))
              (fst (roundRobin_times (length nows) recs None))"
    using resolve_begin_all_cached [OF c n t] a by simp
  also have "\<dots> = map (\<lambda>j. Returned [to_LookupAddress (recs ! (j mod length recs))]) [0..<length nows]"
    using a by (simp add: roundRobin_times_fresh comp_def)
  finally show "fst (resolve_begin_all s host fam (map (\<lambda>now. (now, False)) nows))
          = map (\<lambda>j. Returned [to_LookupAddress (recs ! (j mod length recs))]) [0..<length nows]" .
qed

text \<open>Four single-result lookups against a cached list of three records: indices 0, 1, 2, 0.\<close>

theorem round_robin_rotation_witness:
  "fst (resolve_begin_all
          (initial_state
             \<lparr> arrays := (\<lambda>_. \<lparr> elems = [\<lparr> address = ''10.0.0.1'', family = IPv4, ttl = 60 \<rparr>,
                                          \<lparr> address = ''10.0.0.2'', family = IPv4, ttl = 60 \<rparr>,
                                          \<lparr> address = ''10.0.0.3'', family = IPv4, ttl = 60 \<rparr>],
                                 rr = None \<rparr>),
               addressCache := [''a_4'' \<mapsto> \<lparr> records = 0, expiry = 100 \<rparr>] \<rparr>)
          ''a'' IPv4 [(1, False), (2, False), (3, False), (4, False)])
     = [Returned [\<lparr> address = ''10.0.0.1'', family = IPv4 \<rparr>],
        Returned [\<lparr> address = ''10.0.0.2'', family = IPv4 \<rparr>],
        Returned [\<lparr> address = ''10.0.0.3'', family = IPv4 \<rparr>],
        Returned [\<lparr> address = ''10.0.0.1'', family = IPv4 \<rparr>]]"
proof -
  let ?recs = "[\<lparr> address = ''10.0.0.1'', family = IPv4, ttl = 60 \<rparr>,
                \<lparr> address = ''10.0.0.2'', family = IPv4, ttl = 60 \<rparr>,
                \<lparr> address = ''10.0.0.3'', family = IPv4, ttl = (60::int) \<rparr>]"
  let ?s = "initial_state
             \<lparr> arrays := (\<lambda>_. \<lparr> elems = ?recs, rr = None \<rparr>),
               addressCache := [''a_4'' \<mapsto> \<lparr> records = 0, expiry = 100 \<rparr>] \<rparr>"
  have u: "[0..<4] = [0, 1, 2, 3::nat]" by (simp add: upt_rec)
  have hyp: "addressCache ?s (cache_key ''a'' IPv4) = Some \<lparr> records = 0, expiry = 100 \<rparr>
        \<and> elems (arrays ?s (records \<lparr> records = 0, expiry = 100 \<rparr>)) = ?recs
        \<and> ?recs \<noteq> [] \<and> rr (arrays ?s (records \<lparr> records = 0, expiry = 100 \<rparr>)) = None
        \<and> (\<forall>now\<in>set [1, 2, 3, 4]. now < expiry \<lparr> records = 0, expiry = 100 \<rparr>)"
    by (simp add: cache_key_simps)
  note r = round_robin_rotation [where arr = ?recs and k = 0 and c = None and i = 0 and s = ?s
            and host = "''a''" and fam = IPv4 and e = "\<lparr> records = 0, expiry = 100 \<rparr>"
            and recs = ?recs and nows = "[1, 2, 3, 4]",
            THEN conjunct2, THEN conjunct2, THEN conjunct2, THEN mp, OF hyp]
  then show ?thesis
    by (simp add: u to_LookupAddress_def del: resolve_begin_all.simps)
qed

lemma resolveBoth_cached_single:
  assumes c4: "addressCache s (cache_key host IPv4) = Some e4"
      and c6: "addressCache s (cache_key host IPv6) = Some e6"
      and n4: "elems (arrays s (records e4)) \<noteq> []"
      and n6: "elems (arrays s (records e6)) \<noteq> []"
      and t4: "now < expiry e4" and t6: "now < expiry e6"
      and ne: "records e4 \<noteq> records e6"
  shows "\<exists>x4. fst (roundRobin (elems (arrays s (records e4))) (rr (arrays s (records e4)))) = Some x4
            \<and> x4 \<in> set (elems (arrays s (records e4)))
            \<and> resolveBoth_cached s now host False =
                Some (Inr [to_LookupAddress x4],
                      s\<lparr> arrays := (arrays s)
                        (records e4 := (arrays s (records e4))
                           \<lparr> rr := snd (roundRobin (elems (arrays s (records e4)))
                                                    (rr (arrays s (records e4)))) \<rparr>,
                         records e6 := (arrays s (records e6))
                           \<lparr> rr := snd (roundRobin (elems (arrays s (records e6)))
                                                    (rr (arrays s (records e6)))) \<rparr>) \<rparr>)"
proof -
  let ?a4 = "arrays s (records e4)" and ?a6 = "arrays s (records e6)"
  obtain x4 where x4: "fst (roundRobin (elems ?a4) (rr ?a4)) = Some x4" "x4 \<in> set (elems ?a4)"
    using roundRobin_selects [OF n4] by blast
  obtain x6 where x6: "fst (roundRobin (elems ?a6) (rr ?a6)) = Some x6"
    using roundRobin_selects [OF n6] by blast
  let ?s1 = "s\<lparr> arrays := (arrays s)(records e4 := ?a4\<lparr> rr := snd (roundRobin (elems ?a4) (rr ?a4)) \<rparr>) \<rparr>"
  have b4: "resolve_begin s now host IPv4 False = (Returned [to_LookupAddress x4], ?s1)"
    by (simp add: resolve_begin_hit [OF c4 t4 n4] resolve_finish_one x4)
  have c6': "addressCache ?s1 (cache_key host IPv6) = Some e6" using c6 by simp
  have a6': "arrays ?s1 (records e6) = ?a6" using ne by simp
  have n6': "elems (arrays ?s1 (records e6)) \<noteq> []" using n6 a6' by simp
  have b6: "resolve_begin ?s1 now host IPv6 False =
              (Returned [to_LookupAddress x6],
               ?s1\<lparr> arrays := (arrays ?s1)
                     (records e6 := ?a6\<lparr> rr := snd (roundRobin (elems ?a6) (rr ?a6)) \<rparr>) \<rparr>)"
    unfolding resolve_begin_hit [OF c6' t6 n6'] resolve_finish_one a6'
    by (simp add: x6)
  have "resolveBoth_cached s now host False =
          Some (Inr [to_LookupAddress x4],
                ?s1\<lparr> arrays := (arrays ?s1)
                     (records e6 := ?a6\<lparr> rr := snd (roundRobin (elems ?a6) (rr ?a6)) \<rparr>) \<rparr>)"
    by (simp add: resolveBoth_cached_def resolveBoth_begin_def b4 b6 resolveBoth_then_def
                  wrapNotFound_def)
  then show ?thesis using x4 by simp
qed

lemma roundRobin_explicit:
  assumes "arr \<noteq> []"
  shows "roundRobin arr c =
           (Some (arr ! (case c of None \<Rightarrow> 0
                         | Some i \<Rightarrow> if length arr = 1 \<or> int (length arr) - 1 \<le> i \<or> i < 0
                                     then 0 else nat (i + 1))),
            (case c of None \<Rightarrow> Some 0
             | Some i \<Rightarrow> if length arr = 1 then Some i
                         else if int (length arr) - 1 \<le> i \<or> i < 0 then Some 0
                         else Some (i + 1)))"
  using assms by (cases c) (auto simp: roundRobin_def)

text \<open>
  Claim C10, as amended.  When the IPv4 and the IPv6 key of a hostname are both cached
  (unexpired, in two array objects), a single-result \<^verbatim>\<open>resolveBoth\<close> returns one
  record, taken from the IPv4 array, and runs one round-robin selection on the IPv4
  array and on the IPv6 array alike, changing nothing else.  On each array a missing
  cursor is set to 0; on an array of two or more records the cursor goes to the next
  index, and back to 0 from the last index; on an array of one record a cursor that is
  there is left as it is.  So the IPv6 cursor changes on a lookup answered from IPv4
  whenever the IPv6 array has no cursor yet or has two or more records, and does not
  change when it has one record and a cursor.
\<close>

theorem dual_stack_steps_both_cursors:
  assumes "addressCache s (cache_key host IPv4) = Some e4"
      and "addressCache s (cache_key host IPv6) = Some e6"
      and "elems (arrays s (records e4)) \<noteq> []"
      and "elems (arrays s (records e6)) \<noteq> []"
      and "now < expiry e4" and "now < expiry e6"
      and "records e4 \<noteq> records e6"
  shows "let a4 = arrays s (records e4);
             a6 = arrays s (records e6);
             step = (\<lambda>arr. case rr arr of
                        None \<Rightarrow> Some 0
                      | Some i \<Rightarrow> if length (elems arr) = 1 then Some i
                                  else if int (length (elems arr)) - 1 \<le> i \<or> i < 0 then Some 0
                                  else Some (i + 1));
             pick = (\<lambda>arr. case rr arr of
                        None \<Rightarrow> 0
                      | Some i \<Rightarrow> if length (elems arr) = 1 \<or> int (length (elems arr)) - 1 \<le> i
                                     \<or> i < 0
                                  then 0 else nat (i + 1))
         in resolveBoth_cached s now host False =
              Some (Inr [to_LookupAddress (elems a4 ! pick a4)],
                    s\<lparr> arrays := (arrays s)(records e4 := a4\<lparr> rr := step a4 \<rparr>,
                                            records e6 := a6\<lparr> rr := step a6 \<rparr>) \<rparr>)
          \<and> (rr a4 = None \<or> 2 \<le> length (elems a4) \<longrightarrow> step a4 \<noteq> rr a4)
          \<and> (rr a6 = None \<or> 2 \<le> length (elems a6) \<longrightarrow> step a6 \<noteq> rr a6)
          \<and> (rr a4 \<noteq> None \<and> length (elems a4) = 1 \<longrightarrow> step a4 = rr a4)
          \<and> (rr a6 \<noteq> None \<and> length (elems a6) = 1 \<longrightarrow> step a6 = rr a6)"
proof -
  let ?a4 = "arrays s (records e4)" and ?a6 = "arrays s (records e6)"
  note e4 = roundRobin_explicit [OF assms(3), of "rr ?a4"]
  note e6 = roundRobin_explicit [OF assms(4), of "rr ?a6"]
  obtain x4 where x4: "fst (roundRobin (elems ?a4) (rr ?a4)) = Some x4"
      "resolveBoth_cached s now host False =
         Some (Inr [to_LookupAddress x4],
               s\<lparr> arrays := (arrays s)
                  (records e4 := ?a4\<lparr> rr := snd (roundRobin (elems ?a4) (rr ?a4)) \<rparr>,
                   records e6 := ?a6\<lparr> rr := snd (roundRobin (elems ?a6) (rr ?a6)) \<rparr>) \<rparr>)"
    using resolveBoth_cached_single [OF assms] by blast
  have m4: "rr ?a4 = None \<or> 2 \<le> length (elems ?a4) \<longrightarrow> snd (roundRobin (elems ?a4) (rr ?a4)) \<noteq> rr ?a4"
    using roundRobin_moves [OF assms(3)] by blast
  have m6: "rr ?a6 = None \<or> 2 \<le> length (elems ?a6) \<longrightarrow> snd (roundRobin (elems ?a6) (rr ?a6)) \<noteq> rr ?a6"
    using roundRobin_moves [OF assms(4)] by blast
  have k4: "rr ?a4 \<noteq> None \<and> length (elems ?a4) = 1 \<longrightarrow> snd (roundRobin (elems ?a4) (rr ?a4)) = rr ?a4"
    by (auto simp: roundRobin_def)
  have k6: "rr ?a6 \<noteq> None \<and> length (elems ?a6) = 1 \<longrightarrow> snd (roundRobin (elems ?a6) (rr ?a6)) = rr ?a6"
    by (auto simp: roundRobin_def)
  show ?thesis
    unfolding Let_def
    using x4 m4 m6 k4 k6 unfolding e4 e6 fst_conv snd_conv
    by simp
qed

text \<open>
  Two records per family, the IPv6 cursor at 0: the result is the first IPv4 record, and
  the cursor of the IPv6 array moves from 0 to 1 although no IPv6 record is returned.
\<close>

theorem dual_stack_steps_both_cursors_witness:
  "fst (the (resolveBoth_cached
      (initial_state
             \<lparr> arrays := (\<lambda>r. if r = 0
                   then \<lparr> elems = [\<lparr> address = ''10.0.0.1'', family = IPv4, ttl = 60 \<rparr>,
                                   \<lparr> address = ''10.0.0.2'', family = IPv4, ttl = 60 \<rparr>], rr = None \<rparr>
                   else \<lparr> elems = [\<lparr> address = ''::1'', family = IPv6, ttl = 60 \<rparr>,
                                   \<lparr> address = ''::2'', family = IPv6, ttl = (60::int) \<rparr>], rr = Some 0 \<rparr>),
               addressCache := [''h_4'' \<mapsto> \<lparr> records = 0, expiry = 100 \<rparr>,
                                ''h_6'' \<mapsto> \<lparr> records = 1, expiry = 100 \<rparr>] \<rparr>) 5 ''h'' False))
     = Inr [\<lparr> address = ''10.0.0.1'', family = IPv4 \<rparr>]
   \<and> rr (arrays (snd (the (resolveBoth_cached
      (initial_state
             \<lparr> arrays := (\<lambda>r. if r = 0
                   then \<lparr> elems = [\<lparr> address = ''10.0.0.1'', family = IPv4, ttl = 60 \<rparr>,
                                   \<lparr> address = ''10.0.0.2'', family = IPv4, ttl = 60 \<rparr>], rr = None \<rparr>
                   else \<lparr> elems = [\<lparr> address = ''::1'', family = IPv6, ttl = 60 \<rparr>,
                                   \<lparr> address = ''::2'', family = IPv6, ttl = (60::int) \<rparr>], rr = Some 0 \<rparr>),
               addressCache := [''h_4'' \<mapsto> \<lparr> records = 0, expiry = 100 \<rparr>,
                                ''h_6'' \<mapsto> \<lparr> records = 1, expiry = 100 \<rparr>] \<rparr>) 5 ''h'' False))) 0) = Some 0
   \<and> rr (arrays (snd (the (resolveBoth_cached
      (initial_state
             \<lparr> arrays := (\<lambda>r. if r = 0
                   then \<lparr> elems = [\<lparr> address = ''10.0.0.1'', family = IPv4, ttl = 60 \<rparr>,
                                   \<lparr> address = ''10.0.0.2'', family = IPv4, ttl = 60 \<rparr>], rr = None \<rparr>
                   else \<lparr> elems = [\<lparr> address = ''::1'', family = IPv6, ttl = 60 \<rparr>,
                                   \<lparr> address = ''::2'', family = IPv6, ttl = (60::int) \<rparr>], rr = Some 0 \<rparr>),
               addressCache := [''h_4'' \<mapsto> \<lparr> records = 0, expiry = 100 \<rparr>,
                                ''h_6'' \<mapsto> \<lparr> records = 1, expiry = 100 \<rparr>] \<rparr>) 5 ''h'' False))) 1) = Some 1"
proof -
  let ?s = "(initial_state
             \<lparr> arrays := (\<lambda>r. if r = 0
                   then \<lparr> elems = [\<lparr> address = ''10.0.0.1'', family = IPv4, ttl = 60 \<rparr>,
                                   \<lparr> address = ''10.0.0.2'', family = IPv4, ttl = 60 \<rparr>], rr = None \<rparr>
                   else \<lparr> elems = [\<lparr> address = ''::1'', family = IPv6, ttl = 60 \<rparr>,
                                   \<lparr> address = ''::2'', family = IPv6, ttl = (60::int) \<rparr>], rr = Some 0 \<rparr>),
               addressCache := [''h_4'' \<mapsto> \<lparr> records = 0, expiry = 100 \<rparr>,
                                ''h_6'' \<mapsto> \<lparr> records = 1, expiry = 100 \<rparr>] \<rparr>)"
  have h: "addressCache ?s (cache_key ''h'' IPv4) = Some \<lparr> records = 0, expiry = 100 \<rparr>"
          "addressCache ?s (cache_key ''h'' IPv6) = Some \<lparr> records = 1, expiry = 100 \<rparr>"
          "elems (arrays ?s (records \<lparr> records = 0, expiry = 100 \<rparr>)) \<noteq> []"
          "elems (arrays ?s (records \<lparr> records = 1, expiry = 100 \<rparr>)) \<noteq> []"
          "5 < expiry \<lparr> records = 0, expiry = 100 \<rparr>"
          "5 < expiry \<lparr> records = 1, expiry = 100 \<rparr>"
          "records \<lparr> records = 0, expiry = 100 \<rparr> \<noteq> records \<lparr> records = 1, expiry = 100 \<rparr>"
    by (simp_all add: cache_key_simps)
  show ?thesis
    using dual_stack_steps_both_cursors [OF h]
    by (simp add: Let_def to_LookupAddress_def)
qed

lemma resolveBoth_cached_one_record:
  assumes "addressCache s (cache_key host IPv4) = Some e4"
      and "addressCache s (cache_key host IPv6) = Some e6"
      and "elems (arrays s (records e4)) = [x4]"
      and "elems (arrays s (records e6)) = [x6]"
      and "now < expiry e4" and "now < expiry e6"
      and "records e4 \<noteq> records e6"
      and "rr (arrays s (records e4)) = Some i4"
      and "rr (arrays s (records e6)) = Some i6"
  shows "resolveBoth_cached s now host False = Some (Inr [to_LookupAddress x4], s)"
proof -
  let ?a4 = "arrays s (records e4)" and ?a6 = "arrays s (records e6)"
  have n4: "elems ?a4 \<noteq> []" and n6: "elems ?a6 \<noteq> []" using assms(3,4) by simp_all
  have r4: "roundRobin (elems ?a4) (rr ?a4) = (Some x4, rr ?a4)"
    using assms(3,8) by (simp add: roundRobin_def)
  have r6: "roundRobin (elems ?a6) (rr ?a6) = (Some x6, rr ?a6)"
    using assms(4,9) by (simp add: roundRobin_def)
  obtain y where y: "fst (roundRobin (elems ?a4) (rr ?a4)) = Some y"
      "resolveBoth_cached s now host False =
         Some (Inr [to_LookupAddress y],
               s\<lparr> arrays := (arrays s)
                  (records e4 := ?a4\<lparr> rr := snd (roundRobin (elems ?a4) (rr ?a4)) \<rparr>,
                   records e6 := ?a6\<lparr> rr := snd (roundRobin (elems ?a6) (rr ?a6)) \<rparr>) \<rparr>)"
    using resolveBoth_cached_single [OF assms(1,2) n4 n6 assms(5,6,7)] by blast
  then show ?thesis unfolding r4 r6 by simp
qed

lemmas run_defs =
  resolveBoth_begin_def resolve_begin_def AddressCache_get_def AddressCache_set_def
  settle_jobs_def external_settled_def cache_reaction_def finally_reaction_def
  resolve_resume_def resolve_await_def resolve_tail_def resolve_finish_def roundRobin_def
  cache_key_simps initial_state_def to_LookupAddress_def Let_def

text \<open>
  Claim C10 as stated fails.  A hostname has one A and one AAAA record.  A first
  dual-stack single-result lookup on the freshly loaded module resolves both, caches
  both, and sets both cursors to 0.  A second such lookup, answered from the cache,
  returns the IPv4 record and leaves the whole state as it was: neither cursor advances.
\<close>

theorem dual_stack_cursor_unmoved_counterexample:
  "resolveBoth_cached
      (snd (settle_jobs (snd (settle_jobs (snd (resolveBoth_begin initial_state 0 ''h'' False)) 1 0 (Inr [\<lparr> raw_address = ''10.0.0.1'', raw_ttl = 60 \<rparr>]) ''h'' [(Awaiting 0, False)])) 1 1 (Inr [\<lparr> raw_address = ''::1'', raw_ttl = 60 \<rparr>]) ''h'' [(Awaiting 1, False)])) 5 ''h'' False
     = Some (Inr [\<lparr> address = ''10.0.0.1'', family = IPv4 \<rparr>],
      (snd (settle_jobs (snd (settle_jobs (snd (resolveBoth_begin initial_state 0 ''h'' False)) 1 0 (Inr [\<lparr> raw_address = ''10.0.0.1'', raw_ttl = 60 \<rparr>]) ''h'' [(Awaiting 0, False)])) 1 1 (Inr [\<lparr> raw_address = ''::1'', raw_ttl = 60 \<rparr>]) ''h'' [(Awaiting 1, False)])))
   \<and> rr (arrays
      (snd (settle_jobs (snd (settle_jobs (snd (resolveBoth_begin initial_state 0 ''h'' False)) 1 0 (Inr [\<lparr> raw_address = ''10.0.0.1'', raw_ttl = 60 \<rparr>]) ''h'' [(Awaiting 0, False)])) 1 1 (Inr [\<lparr> raw_address = ''::1'', raw_ttl = 60 \<rparr>]) ''h'' [(Awaiting 1, False)])) 0) = Some 0
   \<and> rr (arrays
      (snd (settle_jobs (snd (settle_jobs (snd (resolveBoth_begin initial_state 0 ''h'' False)) 1 0 (Inr [\<lparr> raw_address = ''10.0.0.1'', raw_ttl = 60 \<rparr>]) ''h'' [(Awaiting 0, False)])) 1 1 (Inr [\<lparr> raw_address = ''::1'', raw_ttl = 60 \<rparr>]) ''h'' [(Awaiting 1, False)])) 1) = Some 0"
proof -
  let ?S = "(snd (settle_jobs (snd (settle_jobs (snd (resolveBoth_begin initial_state 0 ''h'' False)) 1 0 (Inr [\<lparr> raw_address = ''10.0.0.1'', raw_ttl = 60 \<rparr>]) ''h'' [(Awaiting 0, False)])) 1 1 (Inr [\<lparr> raw_address = ''::1'', raw_ttl = 60 \<rparr>]) ''h'' [(Awaiting 1, False)]))"
  have c4: "addressCache ?S (cache_key ''h'' IPv4) = Some \<lparr> records = 0, expiry = 60001 \<rparr>"
    by (simp add: run_defs)
  have c6: "addressCache ?S (cache_key ''h'' IPv6) = Some \<lparr> records = 1, expiry = 60001 \<rparr>"
    by (simp add: run_defs)
  have a4: "arrays ?S 0 = \<lparr> elems = [\<lparr> address = ''10.0.0.1'', family = IPv4, ttl = 60 \<rparr>], rr = Some 0 \<rparr>"
    by (simp add: run_defs)
  have a6: "arrays ?S 1 = \<lparr> elems = [\<lparr> address = ''::1'', family = IPv6, ttl = 60 \<rparr>], rr = Some 0 \<rparr>"
    by (simp add: run_defs)
  have e4: "elems (arrays ?S (records \<lparr> records = 0, expiry = 60001 \<rparr>))
              = [\<lparr> address = ''10.0.0.1'', family = IPv4, ttl = 60 \<rparr>]"
    using a4 by simp
  have e6: "elems (arrays ?S (records \<lparr> records = 1, expiry = 60001 \<rparr>))
              = [\<lparr> address = ''::1'', family = IPv6, ttl = 60 \<rparr>]"
    using a6 by simp
  have r4: "rr (arrays ?S (records \<lparr> records = 0, expiry = 60001 \<rparr>)) = Some 0"
    using a4 by simp
  have r6: "rr (arrays ?S (records \<lparr> records = 1, expiry = 60001 \<rparr>)) = Some 0"
    using a6 by simp
  have "resolveBoth_cached ?S 5 ''h'' False
          = Some (Inr [to_LookupAddress \<lparr> address = ''10.0.0.1'', family = IPv4, ttl = 60 \<rparr>], ?S)"
    by (rule resolveBoth_cached_one_record [OF c4 c6 e4 e6 _ _ _ r4 r6]) simp_all
  then show ?thesis
    using a4 a6 by (simp add: to_LookupAddress_def)
qed

section \<open>Properties of the pending map\<close>

lemma resolve_tail_fields:
  "addressCache (snd (resolve_tail s all v)) = addressCache s"
  "pendingLookups (snd (resolve_tail s all v)) = pendingLookups s"
  "promises (snd (resolve_tail s all v)) = promises s"
  "resolver_calls (snd (resolve_tail s all v)) = resolver_calls s"
  by (simp_all add: resolve_tail_def resolve_finish_fields split: sum.splits prod.splits)
     (metis resolve_finish_fields snd_conv)+

lemma resolve_tail_all_fields:
  "addressCache (snd (resolve_tail_all s v alls)) = addressCache s
   \<and> pendingLookups (snd (resolve_tail_all s v alls)) = pendingLookups s
   \<and> promises (snd (resolve_tail_all s v alls)) = promises s
   \<and> resolver_calls (snd (resolve_tail_all s v alls)) = resolver_calls s"
proof (induction alls arbitrary: s)
  case Nil
  then show ?case by simp
next
  case (Cons all alls)
  show ?case
    using Cons.IH [of "snd (resolve_tail s all v)"]
    by (simp add: case_prod_beta resolve_tail_fields)
qed

lemma resolve_tail_all_error:
  "resolve_tail_all s (Inl e) alls = (replicate (length alls) (Inl e), s)"
  by (induction alls) (simp_all add: resolve_tail_def)

lemma resolve_await_tail:
  "resolve_await (snd (resolve_tail s all v)) p host = resolve_await s p host"
  by (simp add: resolve_await_def resolve_tail_fields)

lemma resume_all_settled:
  assumes "resolve_await s p host = Some v"
  shows "resume_all s host (map (\<lambda>all. (Awaiting p, all)) alls) =
           (map Some (fst (resolve_tail_all s v alls)), snd (resolve_tail_all s v alls))"
  using assms
proof (induction alls arbitrary: s)
  case Nil
  then show ?case by simp
next
  case (Cons all alls)
  have "resolve_await (snd (resolve_tail s all v)) p host = Some v"
    using Cons.prems by (simp add: resolve_await_tail)
  from Cons.IH [OF this] Cons.prems show ?case
    by (simp add: resolve_resume_def case_prod_beta)
qed

lemma zip_replicate_left:
  "n = length ys \<Longrightarrow> zip (replicate n x) ys = map (\<lambda>y. (x, y)) ys"
  by (induction ys arbitrary: n) auto

lemma external_settled_promise:
  "p_hostname (promises (external_settled t p outcome) p) = p_hostname (promises t p)"
  "p_family (promises (external_settled t p outcome) p) = p_family (promises t p)"
  "pendingLookups (external_settled t p outcome) = pendingLookups t"
  "resolver_calls (external_settled t p outcome) = resolver_calls t"
  "addressCache (external_settled t p outcome) = addressCache t"
  by (simp_all add: external_settled_def Let_def split: sum.splits)

lemma cache_reaction_fields:
  "promises (cache_reaction t now p) = promises t"
  "pendingLookups (cache_reaction t now p) = pendingLookups t"
  "resolver_calls (cache_reaction t now p) = resolver_calls t"
  by (simp_all add: cache_reaction_def Let_def split: promise_state.splits)

lemma await_rejected:
  "resolve_await (cache_reaction (external_settled t p (Inl e)) now p) p host =
     Some (Inl (if err_code e = JStr NODATA \<or> err_code e = JStr NONAME
                then makeNotFoundError (err_code e) (err_syscall e) host else e))"
  by (simp add: resolve_await_def cache_reaction_fields external_settled_def Let_def)

lemma await_no_records:
  "resolve_await (cache_reaction (external_settled t p (Inr [])) now p) p host =
     Some (Inl (makeNotFoundError JUndefined (JStr ''getaddrinfo'') (p_hostname (promises t p))))"
  by (simp add: resolve_await_def cache_reaction_fields external_settled_def Let_def
        makeNotFoundError_def NOTFOUND_def NODATA_def NONAME_def)

lemma await_records:
  "recs \<noteq> [] \<Longrightarrow>
     resolve_await (cache_reaction (external_settled t p (Inr recs)) now p) p host =
       Some (Inr (next_array t))"
  by (simp add: resolve_await_def cache_reaction_fields external_settled_def Let_def)

lemma await_settled:
  "\<exists>v. resolve_await (cache_reaction (external_settled t p outcome) now p) p host = Some v"
proof (cases outcome)
  case (Inl e)
  then show ?thesis by (simp add: await_rejected)
next
  case (Inr recs)
  then show ?thesis
    by (cases "recs = []") (simp_all add: await_no_records await_records)
qed

lemma cache_reaction_failed:
  "addressCache (cache_reaction (external_settled t p (Inl e)) now p) = addressCache t"
  "addressCache (cache_reaction (external_settled t p (Inr [])) now p) = addressCache t"
  by (simp_all add: cache_reaction_def external_settled_def Let_def)

lemma settle_jobs_waiting:
  assumes "resolve_await (cache_reaction (external_settled t p outcome) now p) p host = Some v"
  shows "settle_jobs t now p outcome host (map (\<lambda>all. (Awaiting p, all)) alls) =
           (map Some (fst (resolve_tail_all (cache_reaction (external_settled t p outcome) now p) v alls)),
            finally_reaction
              (snd (resolve_tail_all (cache_reaction (external_settled t p outcome) now p) v alls)) p)"
  by (simp add: settle_jobs_def Let_def resume_all_settled [OF assms])

lemma begin_all_miss:
  assumes "fst (AddressCache_get (arrays s) (addressCache s) now (cache_key host fam)) = None"
      and "pendingLookups s (cache_key host fam) = None"
  shows "resolve_begin_all s host fam ((now, all) # callers) =
           (replicate (Suc (length callers)) (Awaiting (next_promise s)),
            snd (resolve_begin s now host fam all))"
proof -
  note b = resolve_begin_miss [OF assms, of all]
  have "resolve_begin_all (snd (resolve_begin s now host fam all)) host fam callers
          = (replicate (length callers) (Awaiting (next_promise s)),
             snd (resolve_begin s now host fam all))"
    by (rule resolve_begin_all_attach) (simp_all add: b)
  then show ?thesis by (simp add: b)
qed

lemma finally_reaction_fields:
  "resolver_calls (finally_reaction t p) = resolver_calls t"
  "addressCache (finally_reaction t p) = addressCache t"
  "pendingLookups (finally_reaction t p) (cache_key (p_hostname (promises t p)) (p_family (promises t p))) = None"
  by (simp_all add: finally_reaction_def Let_def)

text \<open>The state a first caller leaves on a miss, and what the settlement makes of it.\<close>

lemma in_flight:
  assumes "fst (AddressCache_get (arrays s) (addressCache s) now (cache_key host fam)) = None"
      and "pendingLookups s (cache_key host fam) = None"
  shows "resolver_calls (snd (resolve_begin s now host fam all))
           = resolver_calls s @ [(if fam = IPv6 then resolve6 else resolve4, host)]"
    and "pendingLookups (snd (resolve_begin s now host fam all)) (cache_key host fam)
           = Some (next_promise s)"
    and "addressCache (snd (resolve_begin s now host fam all)) (cache_key host fam) = None"
    and "p_hostname (promises (snd (resolve_begin s now host fam all)) (next_promise s)) = host"
    and "p_family (promises (snd (resolve_begin s now host fam all)) (next_promise s)) = fam"
  by (simp_all add: resolve_begin_miss [OF assms])

lemma settled_fields:
  assumes "p_hostname (promises t p) = host" and "p_family (promises t p) = fam"
      and "t' = cache_reaction (external_settled t p outcome) now p"
  shows "resolver_calls (finally_reaction (snd (resolve_tail_all t' v alls)) p) = resolver_calls t"
    and "pendingLookups (finally_reaction (snd (resolve_tail_all t' v alls)) p) (cache_key host fam) = None"
    and "addressCache (finally_reaction (snd (resolve_tail_all t' v alls)) p) = addressCache t'"
proof -
  have pr: "promises (snd (resolve_tail_all t' v alls)) = promises t'"
    using resolve_tail_all_fields [of t' v alls] by simp
  have h: "p_hostname (promises t' p) = host" "p_family (promises t' p) = fam"
    using assms by (simp_all add: cache_reaction_fields external_settled_promise)
  show "resolver_calls (finally_reaction (snd (resolve_tail_all t' v alls)) p) = resolver_calls t"
    using resolve_tail_all_fields [of t' v alls] assms(3)
    by (simp add: finally_reaction_fields cache_reaction_fields external_settled_promise)
  show "pendingLookups (finally_reaction (snd (resolve_tail_all t' v alls)) p) (cache_key host fam) = None"
    using finally_reaction_fields(3) [of "snd (resolve_tail_all t' v alls)" p] pr h by simp
  show "addressCache (finally_reaction (snd (resolve_tail_all t' v alls)) p) = addressCache t'"
    using resolve_tail_all_fields [of t' v alls] by (simp add: finally_reaction_fields)
qed

lemma resolve_begin_pending:
  assumes "pendingLookups s (cache_key host fam) = Some p"
  shows "resolver_calls (snd (resolve_begin s now host fam all)) = resolver_calls s"
    and "pendingLookups (snd (resolve_begin s now host fam all)) = pendingLookups s"
    and "fst (resolve_begin s now host fam all) = Awaiting p
         \<or> (\<exists>res. fst (resolve_begin s now host fam all) = Returned res)"
  using assms
  by (auto simp: resolve_begin_def AddressCache_get_def Let_def resolve_finish_fields case_prod_beta
           split: option.splits)

lemma roundRobin_nth:
  assumes "xs \<noteq> []"
  shows "roundRobin xs (if k = 0 then None else Some (int ((k - 1) mod length xs)))
           = (Some (xs ! (k mod length xs)), Some (int (k mod length xs)))"
proof (cases k)
  case 0
  then show ?thesis using assms by (simp add: roundRobin_fresh)
next
  case (Suc j)
  have n: "0 < length xs" using assms by simp
  have lt: "j mod length xs < length xs" using n by simp
  have "Suc (j mod length xs) mod length xs = Suc j mod length xs"
    by (simp add: mod_Suc_eq)
  then show ?thesis
    using roundRobin_step [OF lt] Suc by simp
qed

lemma resolve_tail_all_records:
  assumes "elems (arrays s r) = xs" and "xs \<noteq> []"
      and "rr (arrays s r) = (if k = 0 then None else Some (int ((k - 1) mod length xs)))"
  shows "fst (resolve_tail_all s (Inr r) alls) =
           map (\<lambda>i. Inr (if alls ! i then map to_LookupAddress xs
                          else [to_LookupAddress
                                  (xs ! ((k + length (filter Not (take i alls))) mod length xs))]))
               [0..<length alls]"
  using assms
proof (induction alls arbitrary: s k)
  case Nil
  then show ?case by simp
next
  case (Cons a alls)
  have "[0..<Suc (length alls)] = 0 # [Suc 0..<Suc (length alls)]"
    by (rule upt_conv_Cons) simp
  then have up: "[0..<length (a # alls)] = 0 # map Suc [0..<length alls]"
    by (simp only: map_Suc_upt length_Cons)
  show ?case
  proof (cases a)
    case True
    have t: "resolve_tail s True (Inr r) = (Inr (map to_LookupAddress xs), s)"
      using Cons.prems(1) by (simp add: resolve_tail_def resolve_finish_all)
    note ih = Cons.IH [OF Cons.prems]
    show ?thesis
      unfolding up using True t ih
      by (simp add: case_prod_beta comp_def del: upt_Suc)
  next
    case False
    let ?s1 = "s\<lparr> arrays := (arrays s)
                  (r := (arrays s r)\<lparr> rr := Some (int (k mod length xs)) \<rparr>) \<rparr>"
    have rrb: "roundRobin (elems (arrays s r)) (rr (arrays s r))
                 = (Some (xs ! (k mod length xs)), Some (int (k mod length xs)))"
      using roundRobin_nth [OF Cons.prems(2), of k] Cons.prems(1,3) by simp
    have t: "resolve_tail s False (Inr r) = (Inr [to_LookupAddress (xs ! (k mod length xs))], ?s1)"
      by (simp add: resolve_tail_def resolve_finish_one rrb)
    have p1: "elems (arrays ?s1 r) = xs" using Cons.prems(1) by simp
    have p3: "rr (arrays ?s1 r)
                = (if Suc k = 0 then None else Some (int ((Suc k - 1) mod length xs)))"
      by simp
    note ih = Cons.IH [OF p1 Cons.prems(2) p3]
    show ?thesis
      unfolding up using False t ih
      by (simp add: case_prod_beta comp_def del: upt_Suc)
  qed
qed

lemma settled_array:
  assumes "recs \<noteq> []"
  shows "arrays (cache_reaction (external_settled t p (Inr recs)) now p) (next_array t)
           = \<lparr> elems = map (\<lambda>record. \<lparr> address = raw_address record,
                                          family = p_family (promises t p),
                                          ttl = raw_ttl record \<rparr>) recs,
               rr = None \<rparr>"
    and "addressCache (cache_reaction (external_settled t p (Inr recs)) now p)
           = (addressCache t)
               (cache_key (p_hostname (promises t p)) (p_family (promises t p)) \<mapsto>
                  \<lparr> records = next_array t,
                    expiry = now + Min (set (map raw_ttl recs)) * 1000 \<rparr>)"
proof -
  let ?t1 = "external_settled t p (Inr recs)"
  let ?xs = "map (\<lambda>record. \<lparr> address = raw_address record, family = p_family (promises t p),
                               ttl = raw_ttl record \<rparr>) recs"
  have a: "arrays ?t1 (next_array t) = \<lparr> elems = ?xs, rr = None \<rparr>"
    using assms by (simp add: external_settled_def Let_def)
  have st: "p_state (promises ?t1 p) = Fulfilled (next_array t)"
    using assms by (simp add: external_settled_def Let_def)
  have ar: "arrays (cache_reaction ?t1 now p) = arrays ?t1"
    by (simp add: cache_reaction_def Let_def split: promise_state.splits)
  show "arrays (cache_reaction ?t1 now p) (next_array t) = \<lparr> elems = ?xs, rr = None \<rparr>"
    using a ar by simp
  have ne: "elems (arrays ?t1 (next_array t)) \<noteq> []" using a assms by simp
  have tt: "map ttl (elems (arrays ?t1 (next_array t))) = map raw_ttl recs"
    using a by (simp add: comp_def)
  show "addressCache (cache_reaction ?t1 now p)
           = (addressCache t)
               (cache_key (p_hostname (promises t p)) (p_family (promises t p)) \<mapsto>
                  \<lparr> records = next_array t,
                    expiry = now + Min (set (map raw_ttl recs)) * 1000 \<rparr>)"
    using AddressCache_set_nonempty [where h = "arrays ?t1" and r = "next_array t"
            and c = "addressCache t" and now = now
            and key = "cache_key (p_hostname (promises t p)) (p_family (promises t p))", OF ne]
          tt st
    by (simp add: cache_reaction_def Let_def external_settled_promise)
qed

lemma in_flight_next_array:
  assumes "fst (AddressCache_get (arrays s) (addressCache s) now (cache_key host fam)) = None"
      and "pendingLookups s (cache_key host fam) = None"
  shows "next_array (snd (resolve_begin s now host fam all)) = next_array s"
  by (simp add: resolve_begin_miss [OF assms])

lemma flight_jobs:
  assumes miss: "fst (AddressCache_get (arrays s) (addressCache s) now (cache_key host fam)) = None"
      and nopend: "pendingLookups s (cache_key host fam) = None"
      and v: "resolve_await
                (cache_reaction (external_settled (snd (resolve_begin s now host fam all))
                   (next_promise s) outcome) now' (next_promise s))
                (next_promise s) host = Some v"
  shows "resolve_begin_all s host fam ((now, all) # callers)
           = (replicate (Suc (length callers)) (Awaiting (next_promise s)),
              snd (resolve_begin s now host fam all))"
    and "settle_jobs (snd (resolve_begin s now host fam all)) now' (next_promise s) outcome host
           (zip (replicate (Suc (length callers)) (Awaiting (next_promise s))) (all # map snd callers))
           = (map Some (fst (resolve_tail_all
                 (cache_reaction (external_settled (snd (resolve_begin s now host fam all))
                    (next_promise s) outcome) now' (next_promise s))
                 v (all # map snd callers))),
              finally_reaction (snd (resolve_tail_all
                 (cache_reaction (external_settled (snd (resolve_begin s now host fam all))
                    (next_promise s) outcome) now' (next_promise s))
                 v (all # map snd callers))) (next_promise s))"
proof -
  let ?p = "next_promise s"
  let ?alls = "all # map snd callers"
  show "resolve_begin_all s host fam ((now, all) # callers)
           = (replicate (Suc (length callers)) (Awaiting ?p), snd (resolve_begin s now host fam all))"
    by (rule begin_all_miss [OF miss nopend])
  have z: "zip (replicate (Suc (length callers)) (Awaiting ?p)) ?alls
             = map (\<lambda>all. (Awaiting ?p, all)) ?alls"
    by (rule zip_replicate_left) simp
  show "settle_jobs (snd (resolve_begin s now host fam all)) now' ?p outcome host
           (zip (replicate (Suc (length callers)) (Awaiting ?p)) ?alls)
           = (map Some (fst (resolve_tail_all
                 (cache_reaction (external_settled (snd (resolve_begin s now host fam all))
                    ?p outcome) now' ?p) v ?alls)),
              finally_reaction (snd (resolve_tail_all
                 (cache_reaction (external_settled (snd (resolve_begin s now host fam all))
                    ?p outcome) now' ?p) v ?alls)) ?p)"
    unfolding z by (rule settle_jobs_waiting [OF v])
qed

lemma flight_success:
  fixes callers :: "(int \<times> bool) list"
  assumes miss: "fst (AddressCache_get (arrays s) (addressCache s) now (cache_key host fam)) = None"
      and nopend: "pendingLookups s (cache_key host fam) = None"
      and ne: "recs \<noteq> []"
  shows "fst (settle_jobs (snd (resolve_begin s now host fam all)) now' (next_promise s) (Inr recs) host
           (zip (replicate (Suc (length callers)) (Awaiting (next_promise s))) (all # map snd callers)))
         = map (\<lambda>i. Some (Inr
              (if (all # map snd callers) ! i
               then map (\<lambda>record. \<lparr> address = raw_address record, family = fam \<rparr>) recs
               else [(\<lambda>record. \<lparr> address = raw_address record, family = fam \<rparr>)
                       (recs ! (length (filter Not (take i (all # map snd callers))) mod length recs))])))
             [0..<Suc (length callers)]"
    and "addressCache (snd (settle_jobs (snd (resolve_begin s now host fam all)) now' (next_promise s)
           (Inr recs) host
           (zip (replicate (Suc (length callers)) (Awaiting (next_promise s))) (all # map snd callers))))
           (cache_key host fam)
         = Some \<lparr> records = next_array s, expiry = now' + Min (set (map raw_ttl recs)) * 1000 \<rparr>"
proof -
  let ?p = "next_promise s"
  let ?alls = "all # map snd callers"
  let ?s1 = "snd (resolve_begin s now host fam all)"
  let ?s' = "cache_reaction (external_settled ?s1 ?p (Inr recs)) now' ?p"
  let ?xs = "map (\<lambda>record. \<lparr> address = raw_address record, family = fam, ttl = raw_ttl record \<rparr>) recs"
  note fl = in_flight [OF miss nopend, of all]
  have na: "next_array ?s1 = next_array s" by (rule in_flight_next_array [OF miss nopend])
  have v: "resolve_await ?s' ?p host = Some (Inr (next_array s))"
    using await_records [OF ne, of ?s1 ?p now' host] na by simp
  note j = flight_jobs(2) [OF miss nopend v, of callers]
  have arr: "arrays ?s' (next_array s) = \<lparr> elems = ?xs, rr = None \<rparr>"
    using settled_array(1) [OF ne, of ?s1 ?p now'] na fl(5) by simp
  have e: "elems (arrays ?s' (next_array s)) = ?xs" using arr by simp
  have x: "?xs \<noteq> []" using ne by simp
  have c: "rr (arrays ?s' (next_array s))
             = (if (0::nat) = 0 then None else Some (int ((0 - 1) mod length ?xs)))"
    using arr by simp
  have rs: "fst (resolve_tail_all ?s' (Inr (next_array s)) ?alls)
              = map (\<lambda>i. Inr (if ?alls ! i then map to_LookupAddress ?xs
                              else [to_LookupAddress
                                      (?xs ! ((0 + length (filter Not (take i ?alls))) mod length ?xs))]))
                    [0..<length ?alls]"
    by (rule resolve_tail_all_records [OF e x c])
  have conv: "map to_LookupAddress ?xs
                = map (\<lambda>record. \<lparr> address = raw_address record, family = fam \<rparr>) recs"
    by (simp add: to_LookupAddress_def comp_def)
  have nth: "\<And>m. m < length recs \<Longrightarrow>
               to_LookupAddress (?xs ! m) = \<lparr> address = raw_address (recs ! m), family = fam \<rparr>"
    by (simp add: to_LookupAddress_def)
  have lt: "\<And>m. m mod length recs < length recs" using ne by simp
  show "fst (settle_jobs ?s1 now' ?p (Inr recs) host
           (zip (replicate (Suc (length callers)) (Awaiting ?p)) ?alls))
         = map (\<lambda>i. Some (Inr
              (if ?alls ! i
               then map (\<lambda>record. \<lparr> address = raw_address record, family = fam \<rparr>) recs
               else [(\<lambda>record. \<lparr> address = raw_address record, family = fam \<rparr>)
                       (recs ! (length (filter Not (take i ?alls)) mod length recs))])))
             [0..<Suc (length callers)]"
    unfolding j fst_conv rs conv
    by (simp add: nth [OF lt] comp_def del: upt_Suc resolve_tail_all.simps)
  note sf = settled_fields(3) [OF fl(4) fl(5) refl, of "Inr recs" now' "Inr (next_array s)" ?alls]
  show "addressCache (snd (settle_jobs ?s1 now' ?p (Inr recs) host
           (zip (replicate (Suc (length callers)) (Awaiting ?p)) ?alls))) (cache_key host fam)
         = Some \<lparr> records = next_array s, expiry = now' + Min (set (map raw_ttl recs)) * 1000 \<rparr>"
    unfolding j snd_conv sf
    using settled_array(2) [OF ne, of ?s1 ?p now'] na fl(4) fl(5) by simp
qed

lemma flight_failure:
  fixes callers :: "(int \<times> bool) list"
  assumes miss: "fst (AddressCache_get (arrays s) (addressCache s) now (cache_key host fam)) = None"
      and nopend: "pendingLookups s (cache_key host fam) = None"
      and v: "resolve_await
                (cache_reaction (external_settled (snd (resolve_begin s now host fam all))
                   (next_promise s) outcome) now' (next_promise s))
                (next_promise s) host = Some (Inl w)"
  shows "fst (settle_jobs (snd (resolve_begin s now host fam all)) now' (next_promise s) outcome host
           (zip (replicate (Suc (length callers)) (Awaiting (next_promise s))) (all # map snd callers)))
         = replicate (Suc (length callers)) (Some (Inl w))"
  unfolding flight_jobs(2) [OF miss nopend v, of callers] fst_conv resolve_tail_all_error
  by simp

text \<open>
  Claim C1, as amended.  Take a key with no unexpired cache entry and no pending
  promise.  \<open>N \<ge> 1\<close> callers call \<^verbatim>\<open>resolve\<close> for it, one after the other, before the
  external call settles; then the external call settles with \<open>outcome\<close> and the jobs
  registered on the promise run.  All \<open>N\<close> callers wait on one promise, the one the first
  call created; the external primitive is invoked once, by the first call, and never
  again up to the end of the jobs (indeed no call of \<^verbatim>\<open>resolve\<close> for the key invokes
  it in any state in which the key is pending).  When the external call fails, every
  caller gets the same error: the not-found translation of a \<^verbatim>\<open>NODATA\<close> or
  \<^verbatim>\<open>NONAME\<close> error, any other error as it is.  When it yields no record, every caller
  gets the same not-found error.  When it yields records, all callers are served from
  the one array of those records tagged with the family, which is also what the cache
  then holds for the key: a caller in \<^verbatim>\<open>all\<close> mode gets all of them in order, and the
  single-result callers get them by round robin in call order, the \<open>j\<close>-th such caller
  the record at index \<open>j mod n\<close>.  When the jobs are done the pending map has no entry for
  the key, whatever the outcome.
\<close>

theorem single_flight:
  fixes callers :: "(int \<times> bool) list"
  assumes miss: "fst (AddressCache_get (arrays s) (addressCache s) now (cache_key host fam)) = None"
      and nopend: "pendingLookups s (cache_key host fam) = None"
  shows "let p = next_promise s;
             alls = all # map snd callers;
             (sts, s1) = resolve_begin_all s host fam ((now, all) # callers);
             (rs, s2) = settle_jobs s1 now' p outcome host (zip sts alls);
             tag = (\<lambda>record. \<lparr> address = raw_address record, family = fam \<rparr>)
         in sts = replicate (length alls) (Awaiting p)
          \<and> resolver_calls s1 = resolver_calls s @ [(if fam = IPv6 then resolve6 else resolve4, host)]
          \<and> pendingLookups s1 (cache_key host fam) = Some p
          \<and> (\<forall>t now2 all2. pendingLookups t (cache_key host fam) = Some p \<longrightarrow>
                 resolver_calls (snd (resolve_begin t now2 host fam all2)) = resolver_calls t)
          \<and> (\<forall>e. outcome = Inl e \<longrightarrow>
                 rs = replicate (length alls)
                        (Some (Inl (if err_code e = JStr NODATA \<or> err_code e = JStr NONAME
                                    then makeNotFoundError (err_code e) (err_syscall e) host
                                    else e))))
          \<and> (outcome = Inr [] \<longrightarrow>
                 rs = replicate (length alls)
                        (Some (Inl (makeNotFoundError JUndefined (JStr ''getaddrinfo'') host))))
          \<and> (\<forall>recs. outcome = Inr recs \<and> recs \<noteq> [] \<longrightarrow>
                 rs = map (\<lambda>i. Some (Inr
                        (if alls ! i then map tag recs
                         else [tag (recs ! (length (filter Not (take i alls)) mod length recs))])))
                      [0..<length alls]
               \<and> addressCache s2 (cache_key host fam)
                   = Some \<lparr> records = next_array s,
                            expiry = now' + Min (set (map raw_ttl recs)) * 1000 \<rparr>)
          \<and> resolver_calls s2 = resolver_calls s1
          \<and> pendingLookups s2 (cache_key host fam) = None"
proof -
  let ?p = "next_promise s"
  let ?alls = "all # map snd callers"
  let ?s1 = "snd (resolve_begin s now host fam all)"
  let ?s' = "cache_reaction (external_settled ?s1 ?p outcome) now' ?p"
  let ?J = "settle_jobs ?s1 now' ?p outcome host (zip (replicate (length ?alls) (Awaiting ?p)) ?alls)"
  note fl = in_flight [OF miss nopend, of all]
  have b: "resolve_begin_all s host fam ((now, all) # callers)
             = (replicate (length ?alls) (Awaiting ?p), ?s1)"
    using begin_all_miss [OF miss nopend, of all callers] by simp
  obtain v where v: "resolve_await ?s' ?p host = Some v"
    using await_settled by blast
  have j: "?J = (map Some (fst (resolve_tail_all ?s' v ?alls)),
                 finally_reaction (snd (resolve_tail_all ?s' v ?alls)) ?p)"
    using flight_jobs(2) [OF miss nopend v, of callers] by simp
  note sf = settled_fields [OF fl(4) fl(5) refl, of outcome now' v ?alls]
  have calls: "resolver_calls (snd ?J) = resolver_calls ?s1"
    unfolding j snd_conv by (rule sf(1))
  have gone: "pendingLookups (snd ?J) (cache_key host fam) = None"
    unfolding j snd_conv by (rule sf(2))
  have quiet: "\<forall>t now2 all2. pendingLookups t (cache_key host fam) = Some ?p \<longrightarrow>
                 resolver_calls (snd (resolve_begin t now2 host fam all2)) = resolver_calls t"
    by (simp add: resolve_begin_pending(1))
  have failed: "\<forall>e. outcome = Inl e \<longrightarrow>
                 fst ?J = replicate (length ?alls)
                        (Some (Inl (if err_code e = JStr NODATA \<or> err_code e = JStr NONAME
                                    then makeNotFoundError (err_code e) (err_syscall e) host
                                    else e)))"
  proof (intro allI impI)
    fix e assume o: "outcome = Inl e"
    show "fst ?J = replicate (length ?alls)
                        (Some (Inl (if err_code e = JStr NODATA \<or> err_code e = JStr NONAME
                                    then makeNotFoundError (err_code e) (err_syscall e) host
                                    else e)))"
      using flight_failure [OF miss nopend, of all outcome now' _ callers]
            await_rejected [of ?s1 ?p e now' host] o
      by simp
  qed
  have empty: "outcome = Inr [] \<longrightarrow>
                 fst ?J = replicate (length ?alls)
                        (Some (Inl (makeNotFoundError JUndefined (JStr ''getaddrinfo'') host)))"
  proof
    assume o: "outcome = Inr []"
    show "fst ?J = replicate (length ?alls)
                        (Some (Inl (makeNotFoundError JUndefined (JStr ''getaddrinfo'') host)))"
      using flight_failure [OF miss nopend, of all outcome now' _ callers]
            await_no_records [of ?s1 ?p now' host] fl(4) o
      by simp
  qed
  have success: "\<forall>recs. outcome = Inr recs \<and> recs \<noteq> [] \<longrightarrow>
                 fst ?J = map (\<lambda>i. Some (Inr
                        (if ?alls ! i
                         then map (\<lambda>record. \<lparr> address = raw_address record, family = fam \<rparr>) recs
                         else [(\<lambda>record. \<lparr> address = raw_address record, family = fam \<rparr>)
                                 (recs ! (length (filter Not (take i ?alls)) mod length recs))])))
                      [0..<length ?alls]
               \<and> addressCache (snd ?J) (cache_key host fam)
                   = Some \<lparr> records = next_array s,
                            expiry = now' + Min (set (map raw_ttl recs)) * 1000 \<rparr>"
  proof (intro allI impI)
    fix recs assume o: "outcome = Inr recs \<and> recs \<noteq> []"
    then have ne: "recs \<noteq> []" and oo: "outcome = Inr recs" by simp_all
    show "fst ?J = map (\<lambda>i. Some (Inr
                        (if ?alls ! i
                         then map (\<lambda>record. \<lparr> address = raw_address record, family = fam \<rparr>) recs
                         else [(\<lambda>record. \<lparr> address = raw_address record, family = fam \<rparr>)
                                 (recs ! (length (filter Not (take i ?alls)) mod length recs))])))
                      [0..<length ?alls]
               \<and> addressCache (snd ?J) (cache_key host fam)
                   = Some \<lparr> records = next_array s,
                            expiry = now' + Min (set (map raw_ttl recs)) * 1000 \<rparr>"
      unfolding oo
      using flight_success [OF miss nopend ne, of all now' callers]
      by (simp del: upt_Suc)
  qed
  show ?thesis
    unfolding Let_def b prod.case
    using fl(1) fl(2) quiet failed empty success calls gone
    by (simp add: case_prod_beta del: upt_Suc)
qed

lemma initial_miss:
  "fst (AddressCache_get (arrays initial_state) (addressCache initial_state) now key) = None"
  "pendingLookups initial_state key = None"
  by (simp_all add: initial_state_def AddressCache_get_def)

text \<open>
  Four callers on the freshly loaded module, two in \<^verbatim>\<open>all\<close> mode and two in
  single-result mode, and an answer of two records: one promise, one call of
  \<^verbatim>\<open>resolve4\<close>, the full list for the first and third caller, the first record for
  the second and the second record for the fourth, the cache entry expiring after the
  smaller ttl, and no pending entry at the end.
\<close>

theorem single_flight_witness:
  "fst (resolve_begin_all initial_state ''a'' IPv4 [(0, True), (1, False), (2, True), (3, False)])
     = [Awaiting 0, Awaiting 0, Awaiting 0, Awaiting 0]
   \<and> fst (settle_jobs
        (snd (resolve_begin_all initial_state ''a'' IPv4 [(0, True), (1, False), (2, True), (3, False)])) 5 0
        (Inr [\<lparr> raw_address = ''10.0.0.1'', raw_ttl = 60 \<rparr>, \<lparr> raw_address = ''10.0.0.2'', raw_ttl = 30 \<rparr>]) ''a''
        (zip (fst (resolve_begin_all initial_state ''a'' IPv4 [(0, True), (1, False), (2, True), (3, False)]))
             [True, False, True, False]))
     = [Some (Inr [\<lparr> address = ''10.0.0.1'', family = IPv4 \<rparr>, \<lparr> address = ''10.0.0.2'', family = IPv4 \<rparr>]),
        Some (Inr [\<lparr> address = ''10.0.0.1'', family = IPv4 \<rparr>]),
        Some (Inr [\<lparr> address = ''10.0.0.1'', family = IPv4 \<rparr>, \<lparr> address = ''10.0.0.2'', family = IPv4 \<rparr>]),
        Some (Inr [\<lparr> address = ''10.0.0.2'', family = IPv4 \<rparr>])]
   \<and> resolver_calls (snd (settle_jobs
        (snd (resolve_begin_all initial_state ''a'' IPv4 [(0, True), (1, False), (2, True), (3, False)])) 5 0
        (Inr [\<lparr> raw_address = ''10.0.0.1'', raw_ttl = 60 \<rparr>, \<lparr> raw_address = ''10.0.0.2'', raw_ttl = 30 \<rparr>]) ''a''
        (zip (fst (resolve_begin_all initial_state ''a'' IPv4 [(0, True), (1, False), (2, True), (3, False)]))
             [True, False, True, False])))
     = [(resolve4, ''a'')]
   \<and> pendingLookups (snd (settle_jobs
        (snd (resolve_begin_all initial_state ''a'' IPv4 [(0, True), (1, False), (2, True), (3, False)])) 5 0
        (Inr [\<lparr> raw_address = ''10.0.0.1'', raw_ttl = 60 \<rparr>, \<lparr> raw_address = ''10.0.0.2'', raw_ttl = 30 \<rparr>]) ''a''
        (zip (fst (resolve_begin_all initial_state ''a'' IPv4 [(0, True), (1, False), (2, True), (3, False)]))
             [True, False, True, False]))) ''a_4''
     = None
   \<and> addressCache (snd (settle_jobs
        (snd (resolve_begin_all initial_state ''a'' IPv4 [(0, True), (1, False), (2, True), (3, False)])) 5 0
        (Inr [\<lparr> raw_address = ''10.0.0.1'', raw_ttl = 60 \<rparr>, \<lparr> raw_address = ''10.0.0.2'', raw_ttl = 30 \<rparr>]) ''a''
        (zip (fst (resolve_begin_all initial_state ''a'' IPv4 [(0, True), (1, False), (2, True), (3, False)]))
             [True, False, True, False]))) ''a_4''
     = Some \<lparr> records = 0, expiry = 30005 \<rparr>"
proof -
  have n: "next_promise initial_state = 0" "next_array initial_state = 0"
          "resolver_calls initial_state = []"
    by (simp_all add: initial_state_def)
  note t = single_flight [where s = initial_state and now = 0 and host = "''a''" and fam = IPv4
             and all = True and callers = "[(1, False), (2, True), (3, False)]"
             and outcome = "Inr [\<lparr> raw_address = ''10.0.0.1'', raw_ttl = 60 \<rparr>,
                                 \<lparr> raw_address = ''10.0.0.2'', raw_ttl = 30 \<rparr>]"
             and now' = 5, OF initial_miss]
  show ?thesis
    using t
    by (auto simp add: Let_def case_prod_beta n cache_key_simps
             simp del: resolve_begin_all.simps resume_all.simps resolve_tail_all.simps)
qed

text \<open>
  Claim C1 as stated fails.  Three single-result callers wait on one external call that
  yields three records: \<^verbatim>\<open>resolve\<close> returns the first record to the first caller, the
  second to the second and the third to the third, not the same records to all.
\<close>

theorem single_flight_results_differ_counterexample:
  "fst (settle_jobs
        (snd (resolve_begin_all initial_state ''a'' IPv4 [(0, False), (1, False), (2, False)])) 5 0
        (Inr [\<lparr> raw_address = ''10.0.0.1'', raw_ttl = 60 \<rparr>, \<lparr> raw_address = ''10.0.0.2'', raw_ttl = 60 \<rparr>,
              \<lparr> raw_address = ''10.0.0.3'', raw_ttl = 60 \<rparr>]) ''a''
        (zip (fst (resolve_begin_all initial_state ''a'' IPv4 [(0, False), (1, False), (2, False)]))
             [False, False, False]))
     = [Some (Inr [\<lparr> address = ''10.0.0.1'', family = IPv4 \<rparr>]),
        Some (Inr [\<lparr> address = ''10.0.0.2'', family = IPv4 \<rparr>]),
        Some (Inr [\<lparr> address = ''10.0.0.3'', family = IPv4 \<rparr>])]"
proof -
  have n: "next_promise initial_state = 0" by (simp add: initial_state_def)
  note f = flight_success(1) [OF initial_miss, where now = 0 and host = "''a''" and fam = IPv4
             and all = False and callers = "[(1, False), (2, False)]" and now' = 5
             and recs = "[\<lparr> raw_address = ''10.0.0.1'', raw_ttl = 60 \<rparr>,
                          \<lparr> raw_address = ''10.0.0.2'', raw_ttl = 60 \<rparr>,
                          \<lparr> raw_address = ''10.0.0.3'', raw_ttl = 60 \<rparr>]"]
  have ba: "resolve_begin_all initial_state ''a'' IPv4 [(0, False), (1, False), (2, False)]
              = ([Awaiting 0, Awaiting 0, Awaiting 0],
                 snd (resolve_begin initial_state 0 ''a'' IPv4 False))"
    using begin_all_miss [where s = initial_state and now = 0 and host = "''a''" and fam = IPv4
            and all = False and callers = "[(1, False), (2, False)]", OF initial_miss] n
    by (simp del: resolve_begin_all.simps)
  show ?thesis
    unfolding ba fst_conv snd_conv
    using f n by simp
qed

lemma makeNotFoundError_fields:
  "err_code (makeNotFoundError cd sc host) = JStr NOTFOUND"
  "err_errno (makeNotFoundError cd sc host) = cd"
  "err_syscall (makeNotFoundError cd sc host) = sc"
  "err_hostname (makeNotFoundError cd sc host) = (if host \<noteq> [] then JStr host else JUndefined)"
  by (simp_all add: makeNotFoundError_def)

text \<open>
  Claim C5.  In the same setting, when the external call succeeds with zero records,
  every caller gets the not-found error made for the hostname: its code is
  \<^verbatim>\<open>dns.NOTFOUND\<close>, its syscall \<^verbatim>\<open>getaddrinfo\<close>, its errno undefined.  The jobs leave
  the address cache as the calls left it, with no entry for the key.
\<close>

theorem zero_records_not_found:
  assumes miss: "fst (AddressCache_get (arrays s) (addressCache s) now (cache_key host fam)) = None"
      and nopend: "pendingLookups s (cache_key host fam) = None"
  shows "let p = next_promise s;
             alls = all # map snd callers;
             (sts, s1) = resolve_begin_all s host fam ((now, all) # callers);
             (rs, s2) = settle_jobs s1 now' p (Inr []) host (zip sts alls);
             err = makeNotFoundError JUndefined (JStr ''getaddrinfo'') host
         in rs = replicate (length alls) (Some (Inl err))
          \<and> err_code err = JStr NOTFOUND
          \<and> err_syscall err = JStr ''getaddrinfo''
          \<and> err_errno err = JUndefined
          \<and> addressCache s2 = addressCache s1
          \<and> addressCache s2 (cache_key host fam) = None"
proof -
  let ?p = "next_promise s"
  let ?alls = "all # map snd callers"
  let ?s1 = "snd (resolve_begin s now host fam all)"
  let ?s' = "cache_reaction (external_settled ?s1 ?p (Inr [])) now' ?p"
  let ?err = "makeNotFoundError JUndefined (JStr ''getaddrinfo'') host"
  note fl = in_flight [OF miss nopend, of all]
  have b: "resolve_begin_all s host fam ((now, all) # callers)
             = (replicate (length ?alls) (Awaiting ?p), ?s1)"
    using begin_all_miss [OF miss nopend, of all callers] by simp
  have v: "resolve_await ?s' ?p host = Some (Inl ?err)"
    using await_no_records [of ?s1 ?p now' host] fl(4) by simp
  have z: "zip (replicate (length ?alls) (Awaiting ?p)) ?alls = map (\<lambda>all. (Awaiting ?p, all)) ?alls"
    by (rule zip_replicate_left) simp
  have j: "settle_jobs ?s1 now' ?p (Inr []) host (zip (replicate (length ?alls) (Awaiting ?p)) ?alls)
             = (map Some (fst (resolve_tail_all ?s' (Inl ?err) ?alls)),
                finally_reaction (snd (resolve_tail_all ?s' (Inl ?err) ?alls)) ?p)"
    unfolding z by (rule settle_jobs_waiting [OF v])
  note sf = settled_fields [OF fl(4) fl(5) refl, of "Inr []" now' "Inl ?err" ?alls]
  have rs: "map Some (fst (resolve_tail_all ?s' (Inl ?err) ?alls)) = replicate (length ?alls) (Some (Inl ?err))"
    by (simp add: resolve_tail_all_error del: resolve_tail_all.simps)
  have c: "addressCache ?s' = addressCache ?s1"
    by (rule cache_reaction_failed)
  show ?thesis
    unfolding Let_def b j prod.case
    using rs sf(3) c fl(3) by (simp add: makeNotFoundError_fields del: resolve_tail_all.simps)
qed

text \<open>Two callers of an IPv6 resolution that yields no record.\<close>

theorem zero_records_not_found_witness:
  "fst (settle_jobs
        (snd (resolve_begin_all initial_state ''a'' IPv6 [(0, False), (1, True)])) 5 0
        (Inr []) ''a''
        (zip (fst (resolve_begin_all initial_state ''a'' IPv6 [(0, False), (1, True)]))
             [False, True]))
     = [Some (Inl (makeNotFoundError JUndefined (JStr ''getaddrinfo'') ''a'')),
        Some (Inl (makeNotFoundError JUndefined (JStr ''getaddrinfo'') ''a''))]
   \<and> addressCache (snd (settle_jobs
        (snd (resolve_begin_all initial_state ''a'' IPv6 [(0, False), (1, True)])) 5 0
        (Inr []) ''a''
        (zip (fst (resolve_begin_all initial_state ''a'' IPv6 [(0, False), (1, True)]))
             [False, True]))) ''a_6''
     = None"
proof -
  have n: "next_promise initial_state = 0" by (simp add: initial_state_def)
  note t = zero_records_not_found [where s = initial_state and now = 0 and host = "''a''"
             and fam = IPv6 and all = False and callers = "[(1, True)]" and now' = 5,
             OF initial_miss]
  show ?thesis
    using t
    by (auto simp add: Let_def case_prod_beta n cache_key_simps
             simp del: resolve_begin_all.simps resume_all.simps resolve_tail_all.simps)
qed

text \<open>
  Claim C6.  In the same setting, when the external call fails with error \<open>e\<close>: if the
  code of \<open>e\<close> is \<^verbatim>\<open>dns.NODATA\<close> or \<^verbatim>\<open>dns.NONAME\<close>, every caller gets the not-found
  error whose code is \<^verbatim>\<open>dns.NOTFOUND\<close>, whose errno is the code of \<open>e\<close> and whose
  syscall is the syscall of \<open>e\<close>; otherwise every caller gets \<open>e\<close> itself.  In both cases
  the jobs leave the address cache as the calls left it, with no entry for the key.
\<close>

theorem external_error_translation:
  assumes miss: "fst (AddressCache_get (arrays s) (addressCache s) now (cache_key host fam)) = None"
      and nopend: "pendingLookups s (cache_key host fam) = None"
  shows "let p = next_promise s;
             alls = all # map snd callers;
             (sts, s1) = resolve_begin_all s host fam ((now, all) # callers);
             (rs, s2) = settle_jobs s1 now' p (Inl e) host (zip sts alls);
             nf = makeNotFoundError (err_code e) (err_syscall e) host
         in (err_code e = JStr NODATA \<or> err_code e = JStr NONAME \<longrightarrow>
               rs = replicate (length alls) (Some (Inl nf)))
          \<and> err_code nf = JStr NOTFOUND
          \<and> err_errno nf = err_code e
          \<and> err_syscall nf = err_syscall e
          \<and> (err_code e \<noteq> JStr NODATA \<and> err_code e \<noteq> JStr NONAME \<longrightarrow>
               rs = replicate (length alls) (Some (Inl e)))
          \<and> addressCache s2 = addressCache s1
          \<and> addressCache s2 (cache_key host fam) = None"
proof -
  let ?p = "next_promise s"
  let ?alls = "all # map snd callers"
  let ?s1 = "snd (resolve_begin s now host fam all)"
  let ?s' = "cache_reaction (external_settled ?s1 ?p (Inl e)) now' ?p"
  let ?nf = "makeNotFoundError (err_code e) (err_syscall e) host"
  let ?v = "if err_code e = JStr NODATA \<or> err_code e = JStr NONAME then ?nf else e"
  note fl = in_flight [OF miss nopend, of all]
  have b: "resolve_begin_all s host fam ((now, all) # callers)
             = (replicate (length ?alls) (Awaiting ?p), ?s1)"
    using begin_all_miss [OF miss nopend, of all callers] by simp
  have v: "resolve_await ?s' ?p host = Some (Inl ?v)"
    by (rule await_rejected)
  have z: "zip (replicate (length ?alls) (Awaiting ?p)) ?alls = map (\<lambda>all. (Awaiting ?p, all)) ?alls"
    by (rule zip_replicate_left) simp
  have j: "settle_jobs ?s1 now' ?p (Inl e) host (zip (replicate (length ?alls) (Awaiting ?p)) ?alls)
             = (map Some (fst (resolve_tail_all ?s' (Inl ?v) ?alls)),
                finally_reaction (snd (resolve_tail_all ?s' (Inl ?v) ?alls)) ?p)"
    unfolding z by (rule settle_jobs_waiting [OF v])
  have c: "addressCache ?s' = addressCache ?s1"
    by (rule cache_reaction_failed)
  show ?thesis
    unfolding Let_def b j prod.case
    using c fl(3)
    by (simp add: resolve_tail_all_error finally_reaction_fields makeNotFoundError_fields
             del: resolve_tail_all.simps)
qed

text \<open>A \<^verbatim>\<open>ENODATA\<close> failure is translated, a \<^verbatim>\<open>ETIMEOUT\<close> failure is passed on.\<close>

theorem external_error_translation_witness:
  "fst (settle_jobs
        (snd (resolve_begin_all initial_state ''a'' IPv4 [(0, False), (1, True)])) 5 0
        (Inl \<lparr> err_message = ''queryA ENODATA a'', err_code = JStr ''ENODATA'',
                err_errno = JUndefined, err_syscall = JStr ''queryA'', err_hostname = JStr ''a'' \<rparr>)
        ''a''
        (zip (fst (resolve_begin_all initial_state ''a'' IPv4 [(0, False), (1, True)]))
             [False, True]))
     = [Some (Inl (makeNotFoundError (JStr ''ENODATA'') (JStr ''queryA'') ''a'')),
        Some (Inl (makeNotFoundError (JStr ''ENODATA'') (JStr ''queryA'') ''a''))]
   \<and> fst (settle_jobs
        (snd (resolve_begin_all initial_state ''a'' IPv4 [(0, False), (1, True)])) 5 0
        (Inl \<lparr> err_message = ''queryA ETIMEOUT a'', err_code = JStr ''ETIMEOUT'',
                err_errno = JUndefined, err_syscall = JStr ''queryA'', err_hostname = JStr ''a'' \<rparr>)
        ''a''
        (zip (fst (resolve_begin_all initial_state ''a'' IPv4 [(0, False), (1, True)]))
             [False, True]))
     = [Some (Inl \<lparr> err_message = ''queryA ETIMEOUT a'', err_code = JStr ''ETIMEOUT'',
                err_errno = JUndefined, err_syscall = JStr ''queryA'', err_hostname = JStr ''a'' \<rparr>),
        Some (Inl \<lparr> err_message = ''queryA ETIMEOUT a'', err_code = JStr ''ETIMEOUT'',
                err_errno = JUndefined, err_syscall = JStr ''queryA'', err_hostname = JStr ''a'' \<rparr>)]"
proof -
  have n: "next_promise initial_state = 0" by (simp add: initial_state_def)
  note t1 = external_error_translation [where s = initial_state and now = 0 and host = "''a''"
             and fam = IPv4 and all = False and callers = "[(1, True)]" and now' = 5
             and e = "\<lparr> err_message = ''queryA ENODATA a'', err_code = JStr ''ENODATA'',
                err_errno = JUndefined, err_syscall = JStr ''queryA'', err_hostname = JStr ''a'' \<rparr>",
             OF initial_miss]
  note t2 = external_error_translation [where s = initial_state and now = 0 and host = "''a''"
             and fam = IPv4 and all = False and callers = "[(1, True)]" and now' = 5
             and e = "\<lparr> err_message = ''queryA ETIMEOUT a'', err_code = JStr ''ETIMEOUT'',
                err_errno = JUndefined, err_syscall = JStr ''queryA'', err_hostname = JStr ''a'' \<rparr>",
             OF initial_miss]
  show ?thesis
    using t1 t2
    by (auto simp add: Let_def case_prod_beta n cache_key_simps NODATA_def NONAME_def
             simp del: resolve_begin_all.simps resume_all.simps resolve_tail_all.simps)
qed

section \<open>The supported family under ADDRCONFIG\<close>

text \<open>
  Whenever the enumeration finds one family \<open>v\<close>, \<^verbatim>\<open>getSupportedFamilies\<close> returns the
  entry \<^verbatim>\<open>[v, v]\<close>; under \<^verbatim>\<open>ADDRCONFIG\<close> every named family is then rejected, and
  an unnamed one becomes that entry, which the dispatch on the family rejects.
\<close>

lemma getSupportedFamilies_one:
  assumes "cachedSupportedFamilies s = None" and "fold iface_step ifaces [] = [v]"
  shows "getSupportedFamilies s ifaces
           = (FamEntry v v, s\<lparr> cachedSupportedFamilies := Some (FamEntry v v) \<rparr>)"
  using assms by (simp add: getSupportedFamilies_def Let_def)

lemma addrconfig_family_named:
  assumes "cachedSupportedFamilies s = None" and "fold iface_step ifaces [] = [v]"
      and "hints_has hints (dns_ADDRCONFIG fl)" and "n \<noteq> 0"
  shows "addrconfig_family fl ifaces s host hints (FamNum n)
           = (Inl (makeNotFoundError JUndefined (JStr ''getaddrinfo'') host),
              s\<lparr> cachedSupportedFamilies := Some (FamEntry v v) \<rparr>)"
  using assms
  by (simp add: addrconfig_family_def getSupportedFamilies_one family_falsy_def)

lemma addrconfig_family_unnamed:
  assumes "cachedSupportedFamilies s = None" and "fold iface_step ifaces [] = [v]"
      and "hints_has hints (dns_ADDRCONFIG fl)"
  shows "addrconfig_family fl ifaces s host hints FamUndefined
           = (Inr (FamEntry v v), s\<lparr> cachedSupportedFamilies := Some (FamEntry v v) \<rparr>)"
    and "lookup_dispatch fl s' now host hints all (FamEntry v v)
           = (Settled (Inl (new_Error ''invalid family number'')), s')"
  using assms
  by (simp_all add: addrconfig_family_def getSupportedFamilies_one family_falsy_def
        lookup_dispatch_def)

text \<open>
  Claim C2, on the code.  The interfaces are a loopback address and one non-internal
  IPv4 address, and nothing is cached yet.  \<^verbatim>\<open>getSupportedFamilies\<close> returns the set
  entry \<^verbatim>\<open>[4, 4]\<close>, not the family 4.  With the \<^verbatim>\<open>ADDRCONFIG\<close> hint, a lookup that
  names no family takes that entry for its family and throws
  \<^verbatim>\<open>invalid family number\<close>; a lookup that names family 4 (the supported one) throws
  the not-found error, as does a lookup that names family 6.  None of them calls the
  resolver.
\<close>

theorem addrconfig_one_family_evaluation:
  "fst (getSupportedFamilies initial_state
          [Some [\<lparr> internal = True, net_family = JStr ''IPv4'' \<rparr>],
           Some [\<lparr> internal = False, net_family = JStr ''IPv4'' \<rparr>]])
     = FamEntry IPv4 IPv4
   \<and> lookupPromise_begin \<lparr> dns_ADDRCONFIG = 32, dns_V4MAPPED = 8, dns_ALL = 16 \<rparr>
          [Some [\<lparr> internal = True, net_family = JStr ''IPv4'' \<rparr>],
           Some [\<lparr> internal = False, net_family = JStr ''IPv4'' \<rparr>]]
          initial_state 0 ''example.com''
          (ArgOptions \<lparr> opt_family = None, opt_hints = Some 32, opt_all = False \<rparr>)
     = (Settled (Inl (new_Error ''invalid family number'')),
        initial_state\<lparr> cachedSupportedFamilies := Some (FamEntry IPv4 IPv4) \<rparr>)
   \<and> lookupPromise_begin \<lparr> dns_ADDRCONFIG = 32, dns_V4MAPPED = 8, dns_ALL = 16 \<rparr>
          [Some [\<lparr> internal = True, net_family = JStr ''IPv4'' \<rparr>],
           Some [\<lparr> internal = False, net_family = JStr ''IPv4'' \<rparr>]]
          initial_state 0 ''example.com''
          (ArgOptions \<lparr> opt_family = Some 4, opt_hints = Some 32, opt_all = False \<rparr>)
     = (Settled (Inl (makeNotFoundError JUndefined (JStr ''getaddrinfo'') ''example.com'')),
        initial_state\<lparr> cachedSupportedFamilies := Some (FamEntry IPv4 IPv4) \<rparr>)
   \<and> lookupPromise_begin \<lparr> dns_ADDRCONFIG = 32, dns_V4MAPPED = 8, dns_ALL = 16 \<rparr>
          [Some [\<lparr> internal = True, net_family = JStr ''IPv4'' \<rparr>],
           Some [\<lparr> internal = False, net_family = JStr ''IPv4'' \<rparr>]]
          initial_state 0 ''example.com''
          (ArgOptions \<lparr> opt_family = Some 6, opt_hints = Some 32, opt_all = False \<rparr>)
     = (Settled (Inl (makeNotFoundError JUndefined (JStr ''getaddrinfo'') ''example.com'')),
        initial_state\<lparr> cachedSupportedFamilies := Some (FamEntry IPv4 IPv4) \<rparr>)"
  by (simp add: getSupportedFamilies_def iface_step_def net_step_def Set_add_def Let_def
        initial_state_def lookupPromise_begin_def arg_options_def default_family_def
        default_hints_def family_falsy_def hints_falsy_def family_of_def addrconfig_family_def
        hints_has_def lookup_dispatch_def)

end
